theory Spec2Isabelle
  imports Main "HOL-Library.Sublist" "HOL-Library.AList"
begin

section \<open>Python strings\<close>

text \<open>
  Strings are character lists. \<open>lower\<close> is \<^verbatim>\<open>str.lower\<close> on the ASCII letters,
  \<open>replace_char a b\<close> is \<^verbatim>\<open>str.replace(a, b)\<close> for one-character patterns,
  \<open>startswith\<close>, \<open>endswith\<close> and \<open>contains\<close> are \<^verbatim>\<open>str.startswith\<close>,
  \<^verbatim>\<open>str.endswith\<close> and the \<^verbatim>\<open>in\<close> test on strings.
\<close>

definition lower_char :: "char \<Rightarrow> char" where
  "lower_char c =
     (case map_of (zip ''ABCDEFGHIJKLMNOPQRSTUVWXYZ'' ''abcdefghijklmnopqrstuvwxyz'') c of
        Some d \<Rightarrow> d
      | None \<Rightarrow> c)"

definition lower :: "string \<Rightarrow> string" where
  "lower s = map lower_char s"

definition replace_char :: "char \<Rightarrow> char \<Rightarrow> string \<Rightarrow> string" where
  "replace_char a b s = map (\<lambda>c. if c = a then b else c) s"

definition startswith :: "string \<Rightarrow> string \<Rightarrow> bool" where
  "startswith s p \<longleftrightarrow> take (length p) s = p"

definition endswith :: "string \<Rightarrow> string \<Rightarrow> bool" where
  "endswith s p \<longleftrightarrow> take (length p) (rev s) = rev p"

fun contains :: "string \<Rightarrow> string \<Rightarrow> bool" where
  "contains [] p = (p = [])"
| "contains (c # cs) p = (startswith (c # cs) p \<or> contains cs p)"

section \<open>Type inference: \<^verbatim>\<open>get_column_type\<close>\<close>

text \<open>
  The sample value is a cell of a pandas row. The function tests it three ways only:
  \<^verbatim>\<open>pd.isna\<close>, \<^verbatim>\<open>isinstance(v, (int, float))\<close> and
  \<^verbatim>\<open>isinstance(v, (datetime, pd.Timestamp))\<close>. \<open>PyBool\<close> is an \<^verbatim>\<open>int\<close> in
  Python; \<open>PyFloat m e\<close> is the finite float \<open>m * 2^e\<close>; \<open>PyObject\<close> is any other object.
\<close>

datatype pyval =
    PyNone
  | PyNaN
  | PyNaT
  | PyBool bool
  | PyInt int
  | PyFloat int int
  | PyDatetime int
  | PyStr string
  | PyObject

fun pd_isna :: "pyval \<Rightarrow> bool" where
  "pd_isna PyNone = True"
| "pd_isna PyNaN = True"
| "pd_isna PyNaT = True"
| "pd_isna _ = False"

fun is_int_or_float :: "pyval \<Rightarrow> bool" where
  "is_int_or_float (PyBool _) = True"
| "is_int_or_float (PyInt _) = True"
| "is_int_or_float (PyFloat _ _) = True"
| "is_int_or_float PyNaN = True"
| "is_int_or_float _ = False"

fun is_datetime :: "pyval \<Rightarrow> bool" where
  "is_datetime (PyDatetime _) = True"
| "is_datetime PyNaT = True"
| "is_datetime _ = False"

definition numeric_indicators :: "string list" where
  "numeric_indicators =
     [''_ms'', ''_bytes'', ''_length'', ''_size'', ''_count'', ''_number'', ''_code'']"

definition timestamp_indicators :: "string list" where
  "timestamp_indicators = [''_date'', ''_time'', ''timestamp'', ''last_modified'']"

definition get_column_type :: "string \<Rightarrow> pyval \<Rightarrow> string" where
  "get_column_type column_name sample_value =
     (if list_ex (\<lambda>ind. endswith (lower column_name) ind) numeric_indicators then ''REAL''
      else if list_ex (\<lambda>ind. contains (lower column_name) ind) timestamp_indicators
        then ''TIMESTAMP''
      else if pd_isna sample_value then ''TEXT''
      else if is_int_or_float sample_value then ''REAL''
      else if is_datetime sample_value then ''TIMESTAMP''
      else ''TEXT'')"

section \<open>Table names: \<^verbatim>\<open>_determine_table_name\<close>\<close>

text \<open>
  \<open>path_stem\<close> is \<^verbatim>\<open>Path(p).stem\<close> of pathlib for POSIX paths: the last component
  that is neither empty nor \<^verbatim>\<open>.\<close>, cut at its last dot when that dot is neither the
  first nor the last character.
\<close>

fun split_on :: "char \<Rightarrow> string \<Rightarrow> string list" where
  "split_on d [] = [ [] ]"
| "split_on d (c # cs) =
     (if c = d then [] # split_on d cs
      else (case split_on d cs of [] \<Rightarrow> [ [c] ] | w # ws \<Rightarrow> (c # w) # ws))"

definition path_name :: "string \<Rightarrow> string" where
  "path_name p =
     (case filter (\<lambda>w. w \<noteq> [] \<and> w \<noteq> ''.'') (split_on CHR ''/'' p) of
        [] \<Rightarrow> []
      | w # ws \<Rightarrow> last (w # ws))"

definition path_stem :: "string \<Rightarrow> string" where
  "path_stem p =
     (let name = path_name p;
          ext = takeWhile (\<lambda>c. c \<noteq> CHR ''.'') (rev name);
          i = length name - length ext - 1
      in if length ext < length name \<and> 0 < i \<and> 0 < length ext then take i name else name)"

definition clean_name :: "string \<Rightarrow> string" where
  "clean_name csv_file =
     replace_char CHR ''-'' CHR ''_'' (replace_char CHR '' '' CHR ''_'' (lower (path_stem csv_file)))"

definition determine_table_name :: "string \<Rightarrow> string" where
  "determine_table_name csv_file =
     (if \<not> startswith (clean_name csv_file) ''sf_'' then ''sf_'' @ clean_name csv_file
      else clean_name csv_file)"

text \<open>A cleaned name: lower-cased, without path separators, spaces or hyphens.\<close>

definition cleaned :: "string \<Rightarrow> bool" where
  "cleaned s \<longleftrightarrow>
     lower s = s \<and> CHR ''/'' \<notin> set s \<and> CHR '' '' \<notin> set s \<and> CHR ''-'' \<notin> set s"

section \<open>Python values, exceptions and data frames\<close>

datatype exn =
    NameError string
  | UnboundLocalError string
  | AttributeError string
  | OperationalError string
  | ProgrammingError string
  | ParserError string

fun exn_str :: "exn \<Rightarrow> string" where
  "exn_str (NameError m) = m"
| "exn_str (UnboundLocalError m) = m"
| "exn_str (AttributeError m) = m"
| "exn_str (OperationalError m) = m"
| "exn_str (ProgrammingError m) = m"
| "exn_str (ParserError m) = m"

text \<open>\<open>str_int\<close> is \<^verbatim>\<open>str\<close> on a Python integer, as an f-string formats it.\<close>

definition digit_char :: "nat \<Rightarrow> char" where
  "digit_char d = ''0123456789'' ! d"

function str_nat :: "nat \<Rightarrow> string" where
  "str_nat n =
     (let q = n div 10; d = [digit_char (n mod 10)]
      in if q = 0 then d else str_nat q @ d)"
  by pat_completeness auto
termination
  by (relation "measure (\<lambda>n. n)") auto

definition str_int :: "int \<Rightarrow> string" where
  "str_int i = (if 0 \<le> i then str_nat (nat i) else CHR ''-'' # str_nat (nat (- i)))"

definition is_space :: "char \<Rightarrow> bool" where
  "is_space c \<longleftrightarrow> c \<in> set [CHR '' '', CHR 0x09, CHR 0x0A, CHR 0x0B, CHR 0x0C, CHR 0x0D]"

definition strip :: "string \<Rightarrow> string" where
  "strip s = rev (dropWhile is_space (rev (dropWhile is_space s)))"

text \<open>\<open>first_word d\<close> is \<^verbatim>\<open>d.split()[0]\<close>, the name a column definition starts with.\<close>

definition first_word :: "string \<Rightarrow> string" where
  "first_word d = takeWhile (\<lambda>c. \<not> is_space c) (dropWhile is_space d)"

text \<open>
  A data frame: its column labels and its rows, each row holding one cell per label.
  \<open>sample_get\<close> is \<^verbatim>\<open>sample_row.get(col)\<close> where \<^verbatim>\<open>sample_row\<close> is the first
  row, or an empty series when the frame has no rows (then every lookup gives \<^verbatim>\<open>None\<close>).
  \<open>df_assign\<close> is \<^verbatim>\<open>df[label] = v\<close> for a scalar \<open>v\<close>.
\<close>

record dataframe =
  df_columns :: "string list"
  df_rows :: "pyval list list"

definition sample_get :: "dataframe \<Rightarrow> string \<Rightarrow> pyval" where
  "sample_get df col =
     (case df_rows df of
        [] \<Rightarrow> PyNone
      | r # _ \<Rightarrow> (case map_of (zip (df_columns df) r) col of Some v \<Rightarrow> v | None \<Rightarrow> PyNone))"

definition df_assign :: "dataframe \<Rightarrow> string \<Rightarrow> pyval \<Rightarrow> dataframe" where
  "df_assign df label v =
     (if label \<in> set (df_columns df)
      then df\<lparr>df_rows := map (\<lambda>r. map (\<lambda>(c, x). if c = label then v else x) (zip (df_columns df) r))
                               (df_rows df)\<rparr>
      else df\<lparr>df_columns := df_columns df @ [label], df_rows := map (\<lambda>r. r @ [v]) (df_rows df)\<rparr>)"

section \<open>The store: an SQLite connection as the program uses it\<close>

text \<open>
  A table is the list of its column definitions, in order, and its rows; a row maps column
  names to cells. Column names are compared case-insensitively by the store and exactly by
  the Python code; table names are compared as written (every table name the program
  builds is lower-case).
\<close>

record table =
  tcolumns :: "string list"
  trows :: "(string \<times> pyval) list list"

type_synonym database = "string \<rightharpoonup> table"

datatype stmt =
    Connect
  | Executescript "(string \<times> string list) list"
  | Select_sqlite_master
  | Pragma_table_info string
  | Alter_add_column string string
  | Create_table string "string list"
  | Begin
  | Insert_maintenance_log string string string
  | Update_maintenance_log string "string option" nat
  | Vacuum
  | Analyze
  | Pragma_optimize
  | Delete_older string int
  | Insert_rows string dataframe
  | Commit

datatype conn_state = NoConn | Open | Closed

text \<open>
  The state of a \<^verbatim>\<open>DatabaseManager\<close>: its \<^verbatim>\<open>table_schemas\<close> dictionary (the
  SQL text of a table is represented by its column definitions), the connection, what the
  connection sees of the database file, the database to return to on rollback when a
  transaction is open, the cursor's \<^verbatim>\<open>lastrowid\<close>, and the statements issued so far.
\<close>

record dbm =
  table_schemas :: "string \<rightharpoonup> string list"
  conn :: conn_state
  store :: database
  snapshot :: "database option"
  lastrowid :: nat
  trace :: "stmt list"

text \<open>
  What the program does not determine: \<open>fault k\<close> says that the store rejects the
  statement issued after \<open>k\<close> earlier ones (a locked or corrupt file, a full disk, a
  statement SQLite refuses for a reason not modelled here), \<open>clock k\<close> is the time at
  that moment in microseconds, \<open>read_csv\<close> is what \<^verbatim>\<open>pd.read_csv\<close> makes of a file,
  and \<open>pandas_columns\<close> the column definitions pandas writes when \<^verbatim>\<open>to_sql\<close> has to
  create a table.
\<close>

record env =
  fault :: "nat \<Rightarrow> bool"
  clock :: "nat \<Rightarrow> int"
  read_csv :: "string \<Rightarrow> exn + dataframe"
  pandas_columns :: "dataframe \<Rightarrow> string list"

definition col_names :: "table \<Rightarrow> string list" where
  "col_names tb = map first_word (tcolumns tb)"

definition has_column :: "table \<Rightarrow> string \<Rightarrow> bool" where
  "has_column tb c \<longleftrightarrow> lower c \<in> set (map lower (col_names tb))"

definition row_id :: "(string \<times> pyval) list \<Rightarrow> nat" where
  "row_id r = (case map_of r ''id'' of Some (PyInt n) \<Rightarrow> nat n | _ \<Rightarrow> 0)"

definition next_rowid :: "(string \<times> pyval) list list \<Rightarrow> nat" where
  "next_rowid rows = Suc (fold max (map row_id rows) 0)"

definition create_if_absent :: "string \<times> string list \<Rightarrow> database \<Rightarrow> database" where
  "create_if_absent td db =
     (case db (fst td) of
        Some tb \<Rightarrow> db
      | None \<Rightarrow> db(fst td \<mapsto> \<lparr>tcolumns = snd td, trows = []\<rparr>))"

definition begin_implicit :: "dbm \<Rightarrow> dbm" where
  "begin_implicit s = (case snapshot s of None \<Rightarrow> s\<lparr>snapshot := Some (store s)\<rparr> | Some d \<Rightarrow> s)"

definition older_than :: "int \<Rightarrow> (string \<times> pyval) list \<Rightarrow> bool" where
  "older_than cutoff r =
     (case map_of r ''crawl_date'' of Some (PyDatetime d) \<Rightarrow> d < cutoff | _ \<Rightarrow> False)"

definition log_update :: "int \<Rightarrow> string \<Rightarrow> string option \<Rightarrow> (string \<times> pyval) list \<Rightarrow> (string \<times> pyval) list"
  where
  "log_update now status err r =
     AList.update ''completed_at'' (PyDatetime now)
       (case err of
          None \<Rightarrow> AList.update ''status'' (PyStr status) r
        | Some m \<Rightarrow> AList.update ''error_message'' (PyStr m) (AList.update ''status'' (PyStr status) r))"

definition frame_rows :: "nat \<Rightarrow> dataframe \<Rightarrow> (string \<times> pyval) list list" where
  "frame_rows n df =
     map (\<lambda>(k, r). (''id'', PyInt (int (n + k))) # zip (df_columns df) r)
         (zip [0 ..< length (df_rows df)] (df_rows df))"

text \<open>
  What one statement does on an open connection that accepts it. The sqlite3 module opens
  a transaction before an INSERT, UPDATE or DELETE when none is open; it does not before
  other statements; \<^verbatim>\<open>executescript\<close> commits a pending transaction first. SQLite
  refuses a \<^verbatim>\<open>VACUUM\<close> while a transaction is open.
\<close>

fun apply_stmt :: "env \<Rightarrow> int \<Rightarrow> stmt \<Rightarrow> dbm \<Rightarrow> exn + dbm" where
  "apply_stmt env now Connect s = Inr s"
| "apply_stmt env now (Executescript tabs) s =
     Inr (s\<lparr>store := fold create_if_absent tabs (store s), snapshot := None\<rparr>)"
| "apply_stmt env now Select_sqlite_master s = Inr s"
| "apply_stmt env now (Pragma_table_info t) s = Inr s"
| "apply_stmt env now (Alter_add_column t d) s =
     (case store s t of
        None \<Rightarrow> Inl (OperationalError (''no such table: '' @ t))
      | Some tb \<Rightarrow>
          if has_column tb (first_word d)
          then Inl (OperationalError (''duplicate column name: '' @ first_word d))
          else Inr (s\<lparr>store := (store s)(t \<mapsto> tb\<lparr>tcolumns := tcolumns tb @ [d]\<rparr>)\<rparr>))"
| "apply_stmt env now (Create_table t ds) s =
     (case store s t of
        Some tb \<Rightarrow> Inl (OperationalError (''table '' @ t @ '' already exists''))
      | None \<Rightarrow>
          if \<not> distinct (map (\<lambda>d. lower (first_word d)) (''id INTEGER PRIMARY KEY'' # ds))
          then Inl (OperationalError ''duplicate column name'')
          else Inr (s\<lparr>store := (store s)(t \<mapsto> \<lparr>tcolumns = ''id INTEGER PRIMARY KEY'' # ds,
                                                   trows = []\<rparr>)\<rparr>))"
| "apply_stmt env now Begin s =
     (case snapshot s of
        Some d \<Rightarrow> Inl (OperationalError ''cannot start a transaction within a transaction'')
      | None \<Rightarrow> Inr (s\<lparr>snapshot := Some (store s)\<rparr>))"
| "apply_stmt env now (Insert_maintenance_log operation details status) s =
     (case store s ''maintenance_log'' of
        None \<Rightarrow> Inl (OperationalError ''no such table: maintenance_log'')
      | Some tb \<Rightarrow>
          if \<not> list_all (has_column tb) [''operation'', ''details'', ''started_at'', ''status'']
          then Inl (OperationalError ''table maintenance_log has no such column'')
          else
            let n = next_rowid (trows tb);
                r = [(''id'', PyInt (int n)), (''operation'', PyStr operation),
                     (''details'', PyStr details), (''started_at'', PyDatetime now),
                     (''status'', PyStr status)];
                s1 = begin_implicit s
            in Inr (s1\<lparr>store := (store s1)(''maintenance_log'' \<mapsto> tb\<lparr>trows := trows tb @ [r]\<rparr>),
                       lastrowid := n\<rparr>))"
| "apply_stmt env now (Update_maintenance_log status err log_id) s =
     (case store s ''maintenance_log'' of
        None \<Rightarrow> Inl (OperationalError ''no such table: maintenance_log'')
      | Some tb \<Rightarrow>
          if \<not> list_all (has_column tb) [''status'', ''error_message'', ''completed_at'', ''id'']
          then Inl (OperationalError ''no such column'')
          else
            let s1 = begin_implicit s
            in Inr (s1\<lparr>store := (store s1)(''maintenance_log'' \<mapsto>
                        tb\<lparr>trows := map (\<lambda>r. if row_id r = log_id then log_update now status err r else r)
                                         (trows tb)\<rparr>)\<rparr>))"
| "apply_stmt env now Vacuum s =
     (case snapshot s of
        Some d \<Rightarrow> Inl (OperationalError ''cannot VACUUM from within a transaction'')
      | None \<Rightarrow> Inr s)"
| "apply_stmt env now Analyze s = Inr s"
| "apply_stmt env now Pragma_optimize s = Inr s"
| "apply_stmt env now (Delete_older t cutoff) s =
     (case store s t of
        None \<Rightarrow> Inl (OperationalError (''no such table: '' @ t))
      | Some tb \<Rightarrow>
          if \<not> has_column tb ''crawl_date'' then Inl (OperationalError ''no such column: crawl_date'')
          else
            let s1 = begin_implicit s
            in Inr (s1\<lparr>store := (store s1)(t \<mapsto>
                        tb\<lparr>trows := filter (\<lambda>r. \<not> older_than cutoff r) (trows tb)\<rparr>)\<rparr>))"
| "apply_stmt env now (Insert_rows t df) s =
     (case store s t of
        None \<Rightarrow>
          let s1 = s\<lparr>store := (store s)(t \<mapsto> \<lparr>tcolumns = pandas_columns env df, trows = []\<rparr>)\<rparr>;
              s2 = (if df_rows df = [] then s1 else begin_implicit s1)
          in Inr (s2\<lparr>store := (store s2)(t \<mapsto> \<lparr>tcolumns = pandas_columns env df,
                                                  trows = frame_rows 1 df\<rparr>)\<rparr>)
      | Some tb \<Rightarrow>
          if df_rows df = [] then Inr s
          else if \<not> list_all (has_column tb) (df_columns df)
          then Inl (OperationalError (''table '' @ t @ '' has no such column''))
          else
            let s1 = begin_implicit s
            in Inr (s1\<lparr>store := (store s1)(t \<mapsto>
                        tb\<lparr>trows := trows tb @ frame_rows (next_rowid (trows tb)) df\<rparr>)\<rparr>))"
| "apply_stmt env now Commit s = Inr (s\<lparr>snapshot := None\<rparr>)"

text \<open>
  \<open>execute\<close> is \<^verbatim>\<open>cursor.execute\<close> (and \<^verbatim>\<open>conn.commit\<close> for \<open>Commit\<close>): it
  raises on a missing or closed connection, and otherwise records the statement and
  raises when the store rejects it.
\<close>

definition execute :: "env \<Rightarrow> stmt \<Rightarrow> dbm \<Rightarrow> exn option \<times> dbm" where
  "execute env st s =
     (case conn s of
        NoConn \<Rightarrow> (Some (AttributeError ''NoneType object has no attribute''), s)
      | Closed \<Rightarrow> (Some (ProgrammingError ''Cannot operate on a closed database.''), s)
      | Open \<Rightarrow>
          let s1 = s\<lparr>trace := trace s @ [st]\<rparr> in
          if fault env (length (trace s)) then (Some (OperationalError ''disk I/O error''), s1)
          else (case apply_stmt env (clock env (length (trace s))) st s1 of
                  Inl e \<Rightarrow> (Some e, s1)
                | Inr s2 \<Rightarrow> (None, s2)))"

fun run :: "env \<Rightarrow> stmt list \<Rightarrow> dbm \<Rightarrow> exn option \<times> dbm" where
  "run env [] s = (None, s)"
| "run env (st # sts) s =
     (case execute env st s of
        (Some e, s1) \<Rightarrow> (Some e, s1)
      | (None, s1) \<Rightarrow> run env sts s1)"

definition rollback :: "dbm \<Rightarrow> exn option \<times> dbm" where
  "rollback s =
     (case conn s of
        NoConn \<Rightarrow> (Some (AttributeError ''NoneType object has no attribute''), s)
      | Closed \<Rightarrow> (Some (ProgrammingError ''Cannot operate on a closed database.''), s)
      | Open \<Rightarrow>
          (None, s\<lparr>store := (case snapshot s of Some d \<Rightarrow> d | None \<Rightarrow> store s), snapshot := None\<rparr>))"

text \<open>
  \<^verbatim>\<open>sqlite3.connect\<close>: a new connection and cursor. A transaction left open on the
  connection it replaces is lost.
\<close>

definition connect :: "env \<Rightarrow> dbm \<Rightarrow> exn option \<times> dbm" where
  "connect env s =
     (let s1 = s\<lparr>trace := trace s @ [Connect]\<rparr> in
      if fault env (length (trace s)) then (Some (OperationalError ''unable to open database file''), s1)
      else (None, s1\<lparr>conn := Open,
                      store := (case snapshot s of Some d \<Rightarrow> d | None \<Rightarrow> store s),
                      snapshot := None, lastrowid := 0\<rparr>))"

section \<open>\<^verbatim>\<open>DatabaseManager\<close>\<close>

text \<open>
  Every method takes the state and returns what it raised (\<open>None\<close> when it returned)
  together with the state it left behind.
\<close>

definition new_dbm :: "database \<Rightarrow> dbm" where
  "new_dbm db = \<lparr>table_schemas = Map.empty, conn = NoConn, store = db, snapshot = None,
                 lastrowid = 0, trace = []\<rparr>"

text \<open>
  The names bound at module level. A name used in a method body that is neither a local
  nor bound here (nor a builtin) raises \<^verbatim>\<open>NameError\<close>: the attributes of the enclosing
  class are not in scope inside its methods.
\<close>

definition module_globals :: "string list" where
  "module_globals =
     [''os'', ''subprocess'', ''argparse'', ''sqlite3'', ''pd'', ''datetime'', ''timedelta'',
      ''time'', ''logging'', ''Path'', ''sys'', ''traceback'', ''shutil'',
      ''DEFAULT_CONFIG_DIR'', ''OUTPUT_DIR'', ''LOG_DIR'', ''setup_logging'',
      ''get_column_type'', ''DatabaseManager'', ''ScreamingFrogWrapper'', ''main'']"

definition class_attributes :: "string list" where
  "class_attributes =
     [''__init__'', ''column_exists'', ''setup_database'', ''_create_base_tables'',
      ''_load_existing_schemas'', ''ensure_table_for_dataframe'', ''optimize_database'',
      ''cleanup_old_records'', ''process_screaming_frog_csv'', ''_determine_table_name'',
      ''close'']"

definition resolve_global :: "string \<Rightarrow> exn option" where
  "resolve_global name =
     (if name \<in> set module_globals then None
      else Some (NameError (''name '' @ name @ '' is not defined'')))"

definition current_columns :: "dbm \<Rightarrow> string \<Rightarrow> string list" where
  "current_columns s t = (case store s t of None \<Rightarrow> [] | Some tb \<Rightarrow> col_names tb)"

definition column_exists :: "env \<Rightarrow> dbm \<Rightarrow> string \<Rightarrow> string \<Rightarrow> (exn + bool) \<times> dbm" where
  "column_exists env s t column =
     (case execute env (Pragma_table_info t) s of
        (Some e, s1) \<Rightarrow> (Inl e, s1)
      | (None, s1) \<Rightarrow> (Inr (column \<in> set (current_columns s1 t)), s1))"

definition crawl_metadata_columns :: "string list" where
  "crawl_metadata_columns =
     [''id INTEGER PRIMARY KEY'', ''url TEXT NOT NULL'', ''crawl_date TIMESTAMP'',
      ''config_used TEXT'', ''crawl_status TEXT'', ''total_urls INTEGER'',
      ''completion_time INTEGER'', ''error_message TEXT'']"

text \<open>
  \<^verbatim>\<open>setup_database\<close>. Its handler catches \<^verbatim>\<open>sqlite3.Error\<close> only to log and
  re-raise, so every exception leaves the method.
\<close>

definition setup_database :: "env \<Rightarrow> dbm \<Rightarrow> exn option \<times> dbm" where
  "setup_database env s =
     (case connect env s of
        (Some e, s1) \<Rightarrow> (Some e, s1)
      | (None, s1) \<Rightarrow>
          (case execute env (Executescript [(''crawl_metadata'', crawl_metadata_columns)]) s1 of
             (Some e, s2) \<Rightarrow> (Some e, s2)
           | (None, s2) \<Rightarrow>
               (case resolve_global ''column_exists'' of
                  Some e \<Rightarrow> (Some e, s2)
                | None \<Rightarrow>
                    (case column_exists env s2 ''crawl_metadata'' ''command_executed'' of
                       (Inl e, s3) \<Rightarrow> (Some e, s3)
                     | (Inr True, s3) \<Rightarrow> execute env Commit s3
                     | (Inr False, s3) \<Rightarrow>
                         (case execute env
                                 (Alter_add_column ''crawl_metadata'' ''command_executed TEXT'') s3 of
                            (Some e, s4) \<Rightarrow> (Some e, s4)
                          | (None, s4) \<Rightarrow> execute env Commit s4)))))"

definition init :: "env \<Rightarrow> database \<Rightarrow> exn option \<times> dbm" where
  "init env db = setup_database env (new_dbm db)"

definition create_base_tables :: "env \<Rightarrow> dbm \<Rightarrow> exn option \<times> dbm" where
  "create_base_tables env s =
     run env
       [Executescript
          [(''schema_version'',
              [''version INTEGER PRIMARY KEY'', ''updated_at TIMESTAMP DEFAULT CURRENT_TIMESTAMP'']),
           (''table_schemas'',
              [''table_name TEXT PRIMARY KEY'', ''columns JSON'',
               ''created_at TIMESTAMP DEFAULT CURRENT_TIMESTAMP'',
               ''updated_at TIMESTAMP DEFAULT CURRENT_TIMESTAMP'']),
           (''maintenance_log'',
              [''id INTEGER PRIMARY KEY'', ''operation TEXT'', ''details TEXT'',
               ''started_at TIMESTAMP'', ''completed_at TIMESTAMP'', ''status TEXT'',
               ''error_message TEXT''])],
        Commit] s"

definition load_existing_schemas :: "env \<Rightarrow> dbm \<Rightarrow> exn option \<times> dbm" where
  "load_existing_schemas env s =
     (case execute env Select_sqlite_master s of
        (Some e, s1) \<Rightarrow> (Some e, s1)
      | (None, s1) \<Rightarrow>
          (None, s1\<lparr>table_schemas :=
                      (\<lambda>n. case store s1 n of
                              Some tb \<Rightarrow> Some (tcolumns tb)
                            | None \<Rightarrow> table_schemas s1 n)\<rparr>))"

definition normalize_col :: "string \<Rightarrow> string" where
  "normalize_col col = lower (replace_char CHR ''-'' CHR ''_'' (replace_char CHR '' '' CHR ''_'' col))"

definition metadata_columns :: "string list" where
  "metadata_columns =
     [''crawl_id INTEGER'', ''processed_at TIMESTAMP DEFAULT CURRENT_TIMESTAMP'', ''source_file TEXT'']"

definition column_defs :: "dataframe \<Rightarrow> string list" where
  "column_defs df =
     map (\<lambda>col. normalize_col col @ '' '' @ get_column_type col (sample_get df col)) (df_columns df)
     @ metadata_columns"

text \<open>
  The loop that adds the missing columns. \<open>cur\<close> is the column set read before the loop;
  an \<^verbatim>\<open>sqlite3.OperationalError\<close> of one ALTER is logged and the loop goes on.
\<close>

fun add_missing_columns :: "env \<Rightarrow> string \<Rightarrow> string list \<Rightarrow> string list \<Rightarrow> dbm \<Rightarrow> exn option \<times> dbm"
  where
  "add_missing_columns env t cur [] s = (None, s)"
| "add_missing_columns env t cur (d # ds) s =
     (if first_word d \<in> set cur then add_missing_columns env t cur ds s
      else (case execute env (Alter_add_column t d) s of
              (None, s1) \<Rightarrow> add_missing_columns env t cur ds s1
            | (Some (OperationalError m), s1) \<Rightarrow> add_missing_columns env t cur ds s1
            | (Some e, s1) \<Rightarrow> (Some e, s1)))"

definition ensure_table_for_dataframe :: "env \<Rightarrow> dbm \<Rightarrow> string \<Rightarrow> dataframe \<Rightarrow> exn option \<times> dbm"
  where
  "ensure_table_for_dataframe env s table_name df =
     (let columns = column_defs df in
      case (if table_schemas s table_name \<noteq> None
            then (case execute env (Pragma_table_info table_name) s of
                    (Some e, s1) \<Rightarrow> (Some e, s1)
                  | (None, s1) \<Rightarrow>
                      add_missing_columns env table_name (current_columns s1 table_name) columns s1)
            else execute env (Create_table table_name columns) s) of
        (Some e, s2) \<Rightarrow> (Some e, s2)
      | (None, s2) \<Rightarrow> execute env Commit s2)"

text \<open>
  The \<^verbatim>\<open>except Exception\<close> handler that \<^verbatim>\<open>optimize_database\<close> and
  \<^verbatim>\<open>cleanup_old_records\<close> share. \<open>log_id\<close> is \<open>None\<close> when the local variable was
  never assigned, which makes \<^verbatim>\<open>if log_id:\<close> raise.
\<close>

definition maintenance_handler :: "env \<Rightarrow> string \<Rightarrow> nat option \<Rightarrow> exn \<Rightarrow> dbm \<Rightarrow> exn option \<times> dbm"
  where
  "maintenance_handler env label log_id e s =
     (case rollback s of
        (Some e', s1) \<Rightarrow> (Some e', s1)
      | (None, s1) \<Rightarrow>
          (case log_id of
             None \<Rightarrow> (Some (UnboundLocalError ''log_id''), s1)
           | Some n \<Rightarrow>
               if n = 0 then (None, s1)
               else run env [Update_maintenance_log ''failed'' (Some (label @ exn_str e)) n, Commit] s1))"

definition optimize_database :: "env \<Rightarrow> dbm \<Rightarrow> exn option \<times> dbm" where
  "optimize_database env s =
     (case run env [Begin, Insert_maintenance_log ''optimize'' ''Regular database optimization''
                             ''in_progress''] s of
        (Some e, s1) \<Rightarrow> maintenance_handler env ''Database optimization failed: '' None e s1
      | (None, s1) \<Rightarrow>
          (let log_id = lastrowid s1 in
           case run env [Vacuum, Analyze, Pragma_optimize,
                         Update_maintenance_log ''completed'' None log_id, Commit] s1 of
             (Some e, s2) \<Rightarrow>
               maintenance_handler env ''Database optimization failed: '' (Some log_id) e s2
           | (None, s2) \<Rightarrow> (None, s2)))"

definition tables_to_clean :: "string list" where
  "tables_to_clean = [''crawl_results'', ''crawl_metadata'']"

definition usec_per_day :: int where
  "usec_per_day = 86400000000"

definition cleanup_old_records :: "env \<Rightarrow> dbm \<Rightarrow> int \<Rightarrow> exn option \<times> dbm" where
  "cleanup_old_records env s days_to_keep =
     (case run env [Begin, Insert_maintenance_log ''cleanup''
                             (''Removing records older than '' @ str_int days_to_keep @ '' days'')
                             ''in_progress''] s of
        (Some e, s1) \<Rightarrow> maintenance_handler env ''Cleanup failed: '' None e s1
      | (None, s1) \<Rightarrow>
          (let log_id = lastrowid s1;
               cutoff_date = clock env (length (trace s1)) - days_to_keep * usec_per_day
           in case run env
                     (map (\<lambda>t. Delete_older t cutoff_date)
                          (filter (\<lambda>t. table_schemas s1 t \<noteq> None) tables_to_clean)
                      @ [Update_maintenance_log ''completed'' None log_id, Commit]) s1 of
                (Some e, s2) \<Rightarrow> maintenance_handler env ''Cleanup failed: '' (Some log_id) e s2
              | (None, s2) \<Rightarrow> (None, s2)))"

text \<open>
  \<^verbatim>\<open>df.to_sql(table_name, conn, if_exists='append', index=False)\<close>: pandas inserts
  the rows, commits on success, and rolls back and re-raises on failure.
\<close>

definition to_sql :: "env \<Rightarrow> dbm \<Rightarrow> string \<Rightarrow> dataframe \<Rightarrow> exn option \<times> dbm" where
  "to_sql env s t df =
     (case execute env (Insert_rows t df) s of
        (Some e, s1) \<Rightarrow> (Some e, snd (rollback s1))
      | (None, s1) \<Rightarrow> execute env Commit s1)"

definition clean_column :: "string \<Rightarrow> string" where
  "clean_column col = lower (replace_char CHR ''-'' CHR ''_'' (replace_char CHR '' '' CHR ''_'' (strip col)))"

definition tag_frame :: "dataframe \<Rightarrow> int \<Rightarrow> string \<Rightarrow> int \<Rightarrow> dataframe" where
  "tag_frame df crawl_id csv_file now =
     df_assign
       (df_assign
          (df_assign (df\<lparr>df_columns := map clean_column (df_columns df)\<rparr>) ''crawl_id'' (PyInt crawl_id))
          ''source_file'' (PyStr csv_file))
       ''processed_at'' (PyDatetime now)"

definition process_screaming_frog_csv :: "env \<Rightarrow> dbm \<Rightarrow> string \<Rightarrow> int \<Rightarrow> (exn + nat) \<times> dbm"
  where
  "process_screaming_frog_csv env s csv_file crawl_id =
     (case read_csv env csv_file of
        Inl e \<Rightarrow> (Inl e, s)
      | Inr df0 \<Rightarrow>
          (let df = tag_frame df0 crawl_id csv_file (clock env (length (trace s)));
               table_name = determine_table_name csv_file
           in case ensure_table_for_dataframe env s table_name df of
                (Some e, s1) \<Rightarrow> (Inl e, s1)
              | (None, s1) \<Rightarrow>
                  (case to_sql env s1 table_name df of
                     (Some e, s2) \<Rightarrow> (Inl e, s2)
                   | (None, s2) \<Rightarrow> (Inr (length (df_rows df)), s2))))"

definition close :: "dbm \<Rightarrow> dbm" where
  "close s =
     (case conn s of
        NoConn \<Rightarrow> s
      | _ \<Rightarrow> s\<lparr>conn := Closed,
              store := (case snapshot s of Some d \<Rightarrow> d | None \<Rightarrow> store s),
              snapshot := None\<rparr>)"

text \<open>
  The states an instance can be in: created by \<^verbatim>\<open>__init__\<close>, then changed by calls
  of its public methods. The private methods run only where a public method calls them.
\<close>

inductive reachable :: "env \<Rightarrow> dbm \<Rightarrow> bool" for env :: env where
  r_new: "reachable env (new_dbm db)"
| r_setup: "reachable env s \<Longrightarrow> reachable env (snd (setup_database env s))"
| r_ensure: "reachable env s \<Longrightarrow> reachable env (snd (ensure_table_for_dataframe env s t df))"
| r_optimize: "reachable env s \<Longrightarrow> reachable env (snd (optimize_database env s))"
| r_cleanup: "reachable env s \<Longrightarrow> reachable env (snd (cleanup_old_records env s days))"
| r_process: "reachable env s \<Longrightarrow> reachable env (snd (process_screaming_frog_csv env s f cid))"
| r_column_exists: "reachable env s \<Longrightarrow> reachable env (snd (column_exists env s t c))"
| r_close: "reachable env s \<Longrightarrow> reachable env (close s)"

text \<open>The statements a call issued, given the states before and after it.\<close>

definition issued :: "dbm \<Rightarrow> dbm \<Rightarrow> stmt list" where
  "issued s s' = drop (length (trace s)) (trace s')"

fun is_alter :: "stmt \<Rightarrow> bool" where
  "is_alter (Alter_add_column t d) = True"
| "is_alter _ = False"

fun is_table_info :: "stmt \<Rightarrow> bool" where
  "is_table_info (Pragma_table_info t) = True"
| "is_table_info _ = False"

fun is_delete :: "stmt \<Rightarrow> bool" where
  "is_delete (Delete_older t c) = True"
| "is_delete _ = False"

text \<open>
  \<open>issues_only P s s'\<close>: from \<open>s\<close> to \<open>s'\<close> the trace grew, by statements that satisfy
  \<open>P\<close> only.
\<close>

definition issues_only :: "(stmt \<Rightarrow> bool) \<Rightarrow> dbm \<Rightarrow> dbm \<Rightarrow> bool" where
  "issues_only P s s' \<longleftrightarrow> (\<exists>new. trace s' = trace s @ new \<and> list_all P new)"

text \<open>
  \<open>only_added t ds db db'\<close>: every table of \<open>db\<close> is still in \<open>db'\<close> with the same rows
  and the same column definitions in the same order, followed by definitions from \<open>ds\<close>
  whose names the table did not have; tables other than \<open>t\<close> gained nothing.
\<close>

definition only_added :: "string \<Rightarrow> string list \<Rightarrow> database \<Rightarrow> database \<Rightarrow> bool" where
  "only_added t ds db db' \<longleftrightarrow>
     (\<forall>u tb. db u = Some tb \<longrightarrow>
        (\<exists>tb' added. db' u = Some tb' \<and> tcolumns tb' = tcolumns tb @ added \<and> trows tb' = trows tb
           \<and> set added \<subseteq> set ds \<and> (\<forall>d \<in> set added. first_word d \<notin> set (col_names tb))
           \<and> (u \<noteq> t \<longrightarrow> added = [])))"

text \<open>
  \<open>in_txn d s\<close>: the connection is open and inside a transaction that a rollback takes
  back to the database \<open>d\<close>. \<open>ends_txn\<close> picks the statements that end a transaction.
\<close>

definition in_txn :: "database \<Rightarrow> dbm \<Rightarrow> bool" where
  "in_txn d s \<longleftrightarrow> conn s = Open \<and> snapshot s = Some d"

fun ends_txn :: "stmt \<Rightarrow> bool" where
  "ends_txn Commit = True"
| "ends_txn (Executescript tabs) = True"
| "ends_txn _ = False"

text \<open>
  \<open>log_only d s\<close>: outside the maintenance log, what the connection sees and what a
  rollback would restore are the tables of \<open>d\<close>. \<open>maintenance_stmt\<close> picks the
  statements of a maintenance run that are not deletions.
\<close>

definition log_only :: "database \<Rightarrow> dbm \<Rightarrow> bool" where
  "log_only d s \<longleftrightarrow>
     (\<forall>u. u \<noteq> ''maintenance_log'' \<longrightarrow> store s u = d u)
     \<and> (\<forall>d'. snapshot s = Some d' \<longrightarrow> (\<forall>u. u \<noteq> ''maintenance_log'' \<longrightarrow> d' u = d u))"

fun maintenance_stmt :: "stmt \<Rightarrow> bool" where
  "maintenance_stmt Begin = True"
| "maintenance_stmt (Insert_maintenance_log a b c) = True"
| "maintenance_stmt (Update_maintenance_log a b n) = True"
| "maintenance_stmt Vacuum = True"
| "maintenance_stmt Analyze = True"
| "maintenance_stmt Pragma_optimize = True"
| "maintenance_stmt Commit = True"
| "maintenance_stmt _ = False"

section \<open>The crawl ledger of \<^verbatim>\<open>ScreamingFrogWrapper\<close>\<close>

text \<open>
  The rows of \<^verbatim>\<open>crawl_metadata\<close> as \<^verbatim>\<open>ScreamingFrogWrapper.setup_database\<close>
  declares the table. \<open>run_crawl_start\<close> is the INSERT at the start of
  \<^verbatim>\<open>run_crawl\<close>, \<open>run_crawl_completed\<close> the UPDATE at its end, and
  \<open>update_crawl_failure\<close> the method \<^verbatim>\<open>_update_crawl_failure\<close>, whose crawl id is
  \<open>None\<close> when no record was created; \<open>ok\<close> says whether the store accepts the UPDATE
  (the method logs an \<^verbatim>\<open>sqlite3.Error\<close> and returns).
\<close>

record crawl_record =
  cr_id :: nat
  url :: string
  crawl_date :: int
  config_used :: string
  crawl_status :: string
  total_urls :: "int option"
  completion_time :: "int option"
  error_message :: "string option"
  command_executed :: "string option"

definition run_crawl_start ::
  "crawl_record list \<Rightarrow> string \<Rightarrow> int \<Rightarrow> string option \<Rightarrow> string \<Rightarrow> nat \<times> crawl_record list" where
  "run_crawl_start rows u now config_file cmd_str =
     (let n = Suc (fold max (map cr_id rows) 0)
      in (n, rows @ [\<lparr>cr_id = n, url = u, crawl_date = now,
                       config_used = (case config_file of None \<Rightarrow> ''default'' | Some c \<Rightarrow>
                                        if c = [] then ''default'' else c),
                       crawl_status = ''started'', total_urls = None, completion_time = None,
                       error_message = None, command_executed = Some cmd_str\<rparr>]))"

definition run_crawl_completed :: "crawl_record list \<Rightarrow> nat \<Rightarrow> int \<Rightarrow> crawl_record list" where
  "run_crawl_completed rows crawl_id elapsed =
     map (\<lambda>r. if cr_id r = crawl_id
               then r\<lparr>crawl_status := ''completed'', completion_time := Some elapsed\<rparr>
               else r) rows"

definition update_crawl_failure ::
  "bool \<Rightarrow> crawl_record list \<Rightarrow> nat option \<Rightarrow> string \<Rightarrow> int \<Rightarrow> crawl_record list" where
  "update_crawl_failure ok rows crawl_id error_msg elapsed =
     (case crawl_id of
        None \<Rightarrow> rows
      | Some n \<Rightarrow>
          if n = 0 then rows
          else if \<not> ok then rows
          else map (\<lambda>r. if cr_id r = n
                         then r\<lparr>crawl_status := ''failed'', completion_time := Some elapsed,
                                error_message := Some error_msg\<rparr>
                         else r) rows)"

definition terminal :: "crawl_record \<Rightarrow> bool" where
  "terminal r \<longleftrightarrow> crawl_status r = ''completed'' \<or> crawl_status r = ''failed''"

section \<open>Example inputs\<close>

text \<open>A ledger with one crawl, begun and then completed after 5 seconds.\<close>

definition completed_ledger :: "crawl_record list" where
  "completed_ledger =
     run_crawl_completed (snd (run_crawl_start [] ''http://x'' 0 None ''cmd'')) 1 5"

text \<open>
  \<open>env0\<close>: the store accepts every statement and the clock stands at 0.
  \<open>env_unopenable\<close>: the database file cannot be opened.
\<close>

definition env0 :: env where
  "env0 = \<lparr>fault = (\<lambda>k. False), clock = (\<lambda>k. 0), read_csv = (\<lambda>f. Inl (ParserError f)),
           pandas_columns = (\<lambda>df. df_columns df)\<rparr>"

definition env_unopenable :: env where
  "env_unopenable = env0\<lparr>fault := (\<lambda>k. k = 0)\<rparr>"

text \<open>A frame with one column and one row, and the same frame without rows.\<close>

definition example_frame :: dataframe where
  "example_frame = \<lparr>df_columns = [''url''], df_rows = [ [PyStr ''http://x''] ]\<rparr>"

definition header_only_frame :: dataframe where
  "header_only_frame = \<lparr>df_columns = [''url''], df_rows = []\<rparr>"

text \<open>
  \<open>constructed\<close>: the state the constructor leaves behind on an empty database file.
  \<open>wider_frame\<close>: the columns of \<open>example_frame\<close> and one more.
\<close>

definition constructed :: dbm where
  "constructed = snd (init env0 Map.empty)"

definition wider_frame :: dataframe where
  "wider_frame = \<lparr>df_columns = [''url'', ''Title''],
                    df_rows = [ [PyStr ''http://y'', PyStr ''Home''] ]\<rparr>"

text \<open>The state after one call of \<^verbatim>\<open>ensure_table_for_dataframe\<close> on the constructed state.\<close>

definition constructed_with_sf_a :: dbm where
  "constructed_with_sf_a = snd (ensure_table_for_dataframe env0 constructed ''sf_a'' example_frame)"

text \<open>
  A database file with the maintenance log and three crawl records, dated 10, 40 and 400
  days before the day 1000 at which \<open>env_today\<close> stops the clock.
\<close>

definition maintenance_log_columns :: "string list" where
  "maintenance_log_columns =
     [''id INTEGER PRIMARY KEY'', ''operation TEXT'', ''details TEXT'', ''started_at TIMESTAMP'',
      ''completed_at TIMESTAMP'', ''status TEXT'', ''error_message TEXT'']"

definition env_today :: env where
  "env_today = env0\<lparr>clock := (\<lambda>k. 1000 * usec_per_day)\<rparr>"

definition crawl_row :: "int \<Rightarrow> int \<Rightarrow> (string \<times> pyval) list" where
  "crawl_row n days_ago =
     [(''id'', PyInt n), (''url'', PyStr ''http://x''),
      (''crawl_date'', PyDatetime ((1000 - days_ago) * usec_per_day)),
      (''config_used'', PyStr ''default''), (''crawl_status'', PyStr ''completed'')]"

definition retention_db :: database where
  "retention_db =
     [''crawl_metadata'' \<mapsto> \<lparr>tcolumns = crawl_metadata_columns,
                                  trows = [crawl_row 1 10, crawl_row 2 40, crawl_row 3 400]\<rparr>,
      ''maintenance_log'' \<mapsto> \<lparr>tcolumns = maintenance_log_columns, trows = []\<rparr>]"

definition retention_state :: dbm where
  "retention_state = snd (init env_today retention_db)"

text \<open>
  \<open>env_vacuum_fails\<close>: the store rejects the fifth statement, which in a constructed
  instance that runs \<^verbatim>\<open>optimize_database\<close> first is the \<^verbatim>\<open>VACUUM\<close>.
\<close>

definition env_vacuum_fails :: env where
  "env_vacuum_fails = env0\<lparr>fault := (\<lambda>k. k = 4)\<rparr>"

definition log_db :: database where
  "log_db = [''maintenance_log'' \<mapsto> \<lparr>tcolumns = maintenance_log_columns, trows = []\<rparr>]"

definition log_state :: dbm where
  "log_state = snd (init env_vacuum_fails log_db)"

text \<open>\<open>env_header_only\<close>: every CSV file holds the header line \<^verbatim>\<open>url\<close> and no data row.\<close>

definition env_header_only :: env where
  "env_header_only = env0\<lparr>read_csv := (\<lambda>f. Inr header_only_frame)\<rparr>"

section \<open>Properties of the pure functions\<close>

lemma lower_append: "lower (a @ b) = lower a @ lower b"
  by (simp add: lower_def)

lemma endswith_append: "endswith (a @ b) b"
  by (simp add: endswith_def)

text \<open>
  C6. A column name whose ending, read case-insensitively, is one of the numeric suffixes
  is typed REAL, whatever the sample value is (a missing one included).
\<close>

theorem get_column_type_numeric_suffix:
  "lower suf \<in> set numeric_indicators \<Longrightarrow> get_column_type (pre @ suf) v = ''REAL''"
proof -
  assume m: "lower suf \<in> set numeric_indicators"
  have "endswith (lower (pre @ suf)) (lower suf)"
    by (simp add: lower_append endswith_append)
  with m have "list_ex (\<lambda>ind. endswith (lower (pre @ suf)) ind) numeric_indicators"
    unfolding list_ex_iff by blast
  then show ?thesis
    by (simp add: get_column_type_def)
qed

theorem get_column_type_numeric_suffix_witness:
  "lower ''_MS'' \<in> set numeric_indicators
   \<and> get_column_type (''Response_Time'' @ ''_MS'') PyNone = ''REAL''"
proof -
  have m: "lower ''_MS'' \<in> set numeric_indicators"
    by (simp add: lower_def lower_char_def numeric_indicators_def)
  from m get_column_type_numeric_suffix [OF m, of "''Response_Time''" PyNone]
  show ?thesis by simp
qed

subsection \<open>Table names\<close>

lemma rev_split_last_dot:
  assumes "length (takeWhile (\<lambda>c. c \<noteq> d) (rev name)) < length name"
  shows "\<exists>a. name = a @ d # rev (takeWhile (\<lambda>c. c \<noteq> d) (rev name))"
proof -
  let ?ext = "takeWhile (\<lambda>c. c \<noteq> d) (rev name)"
  let ?rest = "dropWhile (\<lambda>c. c \<noteq> d) (rev name)"
  have split: "rev name = ?ext @ ?rest" by simp
  have "?rest \<noteq> []"
  proof
    assume "?rest = []"
    with split have "rev name = ?ext" by simp
    then have "length name = length ?ext" by (metis length_rev)
    with assms show False by simp
  qed
  then have "hd ?rest = d" using hd_dropWhile [of "\<lambda>c. c \<noteq> d" "rev name"] by simp
  with \<open>?rest \<noteq> []\<close> obtain r where r: "?rest = d # r" by (cases ?rest) auto
  have "name = rev (rev name)" by simp
  also have "\<dots> = rev (?ext @ d # r)" using split r by simp
  also have "\<dots> = rev r @ d # rev ?ext" by simp
  finally show ?thesis by blast
qed

lemma path_stem_cases:
  "path_stem p = path_name p \<or>
   (\<exists>a b. path_name p = a @ CHR ''.'' # b \<and> a \<noteq> [] \<and> b \<noteq> [] \<and> path_stem p = a)"
proof -
  let ?name = "path_name p"
  let ?ext = "takeWhile (\<lambda>c. c \<noteq> CHR ''.'') (rev ?name)"
  let ?i = "length ?name - length ?ext - 1"
  show ?thesis
  proof (cases "length ?ext < length ?name \<and> 0 < ?i \<and> 0 < length ?ext")
    case False
    then show ?thesis by (auto simp add: path_stem_def Let_def)
  next
    case True
    then obtain a where nm: "?name = a @ CHR ''.'' # rev ?ext"
      using rev_split_last_dot [of "CHR ''.''" ?name] by blast
    have "length ?name = length a + 1 + length ?ext"
      by (subst nm) simp
    then have i: "?i = length a" by simp
    with True have a: "a \<noteq> []" by auto
    from True have e: "rev ?ext \<noteq> []" by auto
    have "path_stem p = take ?i ?name" using True by (simp add: path_stem_def Let_def)
    also have "\<dots> = take (length a) ?name" using i by simp
    also have "\<dots> = take (length a) (a @ CHR ''.'' # rev ?ext)" using nm by simp
    also have "\<dots> = a" by simp
    finally have "path_stem p = a" .
    with nm a e show ?thesis by blast
  qed
qed

lemma lower_char_idem: "lower_char (lower_char c) = lower_char c"
  by (simp add: lower_char_def)

lemma lower_char_eq_iff:
  "lower_char c = CHR ''/'' \<longleftrightarrow> c = CHR ''/''"
  "lower_char c = CHR '' '' \<longleftrightarrow> c = CHR '' ''"
  "lower_char c = CHR ''-'' \<longleftrightarrow> c = CHR ''-''"
  by (simp_all add: lower_char_def)

lemma split_on_no_sep: "w \<in> set (split_on d s) \<Longrightarrow> d \<notin> set w"
  by (induction s arbitrary: w) (auto split: if_splits list.splits)

lemma split_on_absent: "d \<notin> set s \<Longrightarrow> split_on d s = [s]"
  by (induction s) auto

lemma path_name_no_sep: "CHR ''/'' \<notin> set (path_name p)"
proof -
  let ?ws = "filter (\<lambda>w. w \<noteq> [] \<and> w \<noteq> ''.'') (split_on CHR ''/'' p)"
  show ?thesis
  proof (cases ?ws)
    case Nil
    then show ?thesis by (simp add: path_name_def)
  next
    case (Cons w ws)
    then have "path_name p = last ?ws" by (simp add: path_name_def)
    moreover have "?ws \<noteq> []" using Cons by simp
    then have "last ?ws \<in> set ?ws" by (rule last_in_set)
    ultimately have "path_name p \<in> set (split_on CHR ''/'' p)" by auto
    then show ?thesis by (rule split_on_no_sep)
  qed
qed

lemma path_name_plain: "CHR ''/'' \<notin> set x \<Longrightarrow> x \<noteq> [] \<Longrightarrow> x \<noteq> ''.'' \<Longrightarrow> path_name x = x"
  by (simp add: path_name_def split_on_absent)

lemma path_stem_no_sep: "CHR ''/'' \<notin> set (path_stem p)"
  using path_stem_cases [of p] path_name_no_sep [of p] by auto

lemma lower_char_underscore: "lower_char CHR ''_'' = CHR ''_''"
  by (simp add: lower_char_def)

lemma lower_sf: "lower ''sf_'' = ''sf_''"
  by (simp add: lower_def lower_char_def)

lemma cleaned_clean_name: "cleaned (clean_name f)"
proof -
  define r where "r = (\<lambda>c. if lower_char c = CHR '' '' \<or> lower_char c = CHR ''-'' then CHR ''_''
                         else lower_char c)"
  have eq: "clean_name f = map r (path_stem f)"
    by (simp add: clean_name_def replace_char_def lower_def r_def)
  have low: "lower_char (r c) = r c" for c
    by (simp add: r_def lower_char_idem lower_char_underscore)
  have sep: "r c = CHR ''/'' \<Longrightarrow> c = CHR ''/''" for c
    by (simp add: r_def lower_char_eq_iff split: if_splits)
  have sp: "r c \<noteq> CHR '' ''" "r c \<noteq> CHR ''-''" for c
    by (simp_all add: r_def)
  have "lower (clean_name f) = clean_name f"
    unfolding eq lower_def by (simp add: low)
  moreover have "CHR ''/'' \<notin> set (clean_name f)"
  proof
    assume "CHR ''/'' \<in> set (clean_name f)"
    then obtain c where "c \<in> set (path_stem f)" "r c = CHR ''/''"
      unfolding eq by auto
    with sep have "CHR ''/'' \<in> set (path_stem f)" by blast
    with path_stem_no_sep show False by blast
  qed
  moreover have "CHR '' '' \<notin> set (clean_name f)"
  proof
    assume "CHR '' '' \<in> set (clean_name f)"
    then obtain c where "r c = CHR '' ''" unfolding eq by auto
    with sp show False by blast
  qed
  moreover have "CHR ''-'' \<notin> set (clean_name f)"
  proof
    assume "CHR ''-'' \<in> set (clean_name f)"
    then obtain c where "r c = CHR ''-''" unfolding eq by auto
    with sp show False by blast
  qed
  ultimately show ?thesis by (simp add: cleaned_def)
qed

lemma cleaned_determine: "cleaned (determine_table_name f)"
proof (cases "startswith (clean_name f) ''sf_''")
  case True
  then show ?thesis using cleaned_clean_name [of f] by (simp add: determine_table_name_def)
next
  case False
  then have "determine_table_name f = ''sf_'' @ clean_name f"
    by (simp add: determine_table_name_def)
  moreover have "cleaned (''sf_'' @ clean_name f)"
    using cleaned_clean_name [of f] lower_sf
    unfolding cleaned_def lower_append by simp
  ultimately show ?thesis by simp
qed

lemma cleaned_take: "cleaned s \<Longrightarrow> cleaned (take n s)"
  by (auto simp: cleaned_def lower_def take_map [symmetric] dest: in_set_takeD)

lemma cleaned_fixed: "cleaned s \<Longrightarrow> replace_char CHR ''-'' CHR ''_'' (replace_char CHR '' '' CHR ''_'' (lower s)) = s"
  by (auto simp: cleaned_def replace_char_def intro!: map_idI)

lemma startswith_determine: "startswith (determine_table_name f) ''sf_''"
  by (simp add: determine_table_name_def startswith_def)

lemma path_stem_keeps_prefix:
  assumes "cleaned x" "startswith x ''sf_''"
  shows "prefix (path_stem x) x \<and> startswith (path_stem x) ''sf_'' \<and> cleaned (path_stem x)"
proof -
  from assms have x: "CHR ''/'' \<notin> set x" "x \<noteq> []" "x \<noteq> ''.''"
    by (auto simp: cleaned_def startswith_def)
  then have nm: "path_name x = x" by (rule path_name_plain)
  from path_stem_cases [of x] show ?thesis
  proof
    assume "path_stem x = path_name x"
    with nm assms show ?thesis by simp
  next
    assume "\<exists>a b. path_name x = a @ CHR ''.'' # b \<and> a \<noteq> [] \<and> b \<noteq> [] \<and> path_stem x = a"
    then obtain a b where ab: "x = a @ CHR ''.'' # b" "path_stem x = a" using nm by auto
    have "startswith a ''sf_''"
    proof (cases a)
      case Nil
      with ab assms(2) show ?thesis by (simp add: startswith_def)
    next
      case (Cons c1 a1)
      show ?thesis
      proof (cases a1)
        case Nil
        with Cons ab assms(2) show ?thesis by (simp add: startswith_def)
      next
        case (Cons c2 a2)
        show ?thesis
        proof (cases a2)
          case Nil
          with Cons \<open>a = c1 # a1\<close> ab assms(2) show ?thesis by (simp add: startswith_def)
        next
          case (Cons c3 a3)
          with \<open>a1 = c2 # a2\<close> \<open>a = c1 # a1\<close> ab assms(2) show ?thesis by (simp add: startswith_def)
        qed
      qed
    qed
    moreover have "prefix a x" using ab by simp
    moreover have "cleaned a" using cleaned_take [OF assms(1), of "length a"] ab by simp
    ultimately show ?thesis using ab by simp
  qed
qed

text \<open>
  C8. \<open>determine_table_name\<close> is a function of the source identifier alone. Its result is
  never empty and begins with the prefix \<^verbatim>\<open>sf_\<close>; the prefix is put in front only of a
  cleaned name that does not begin with it already, so it is added at most once. Deriving a
  name from a derived name adds no further prefix: the result is the stem of the first
  result, hence an initial segment of it that still begins with the prefix.
\<close>

theorem determine_table_name_prefix_once:
  "determine_table_name f \<noteq> []
   \<and> startswith (determine_table_name f) ''sf_''
   \<and> (determine_table_name f = clean_name f
       \<or> determine_table_name f = ''sf_'' @ clean_name f \<and> \<not> startswith (clean_name f) ''sf_'')
   \<and> determine_table_name (determine_table_name f) = path_stem (determine_table_name f)
   \<and> prefix (determine_table_name (determine_table_name f)) (determine_table_name f)
   \<and> startswith (determine_table_name (determine_table_name f)) ''sf_''"
proof -
  let ?x = "determine_table_name f"
  have s: "startswith ?x ''sf_''" by (rule startswith_determine)
  then have ne: "?x \<noteq> []" by (auto simp: startswith_def)
  have once: "?x = clean_name f \<or> ?x = ''sf_'' @ clean_name f \<and> \<not> startswith (clean_name f) ''sf_''"
    by (simp add: determine_table_name_def)
  have k: "prefix (path_stem ?x) ?x \<and> startswith (path_stem ?x) ''sf_'' \<and> cleaned (path_stem ?x)"
    using cleaned_determine s by (rule path_stem_keeps_prefix)
  then have "clean_name ?x = path_stem ?x"
    by (simp add: clean_name_def cleaned_fixed)
  with k have again: "determine_table_name ?x = path_stem ?x"
    by (simp add: determine_table_name_def)
  from ne s once again k show ?thesis by simp
qed

theorem determine_table_name_prefix_once_witness:
  "determine_table_name ''a-B.csv'' = ''sf_a_b'' \<and> determine_table_name ''sf_a_b'' = ''sf_a_b''
   \<and> \<not> startswith (clean_name ''a-B.csv'') ''sf_''"
  using determine_table_name_prefix_once [of "''a-B.csv''"]
  by code_simp

section \<open>The crawl ledger\<close>

lemma run_crawl_completed_idem:
  "run_crawl_completed (run_crawl_completed rows i t) i t = run_crawl_completed rows i t"
  by (simp add: run_crawl_completed_def)

lemma update_crawl_failure_idem:
  "update_crawl_failure ok (update_crawl_failure ok rows j m t) j m t = update_crawl_failure ok rows j m t"
  by (simp add: update_crawl_failure_def split: option.splits)

lemma run_crawl_completed_others:
  "filter (\<lambda>r. cr_id r \<noteq> i) (run_crawl_completed rows i t) = filter (\<lambda>r. cr_id r \<noteq> i) rows"
  by (induction rows) (simp_all add: run_crawl_completed_def)

lemma update_crawl_failure_others:
  "filter (\<lambda>r. Some (cr_id r) \<noteq> j) (update_crawl_failure ok rows j m t) = filter (\<lambda>r. Some (cr_id r) \<noteq> j) rows"
proof -
  have "filter (\<lambda>r. cr_id r \<noteq> n)
          (map (\<lambda>r. if cr_id r = n
                     then r\<lparr>crawl_status := ''failed'', completion_time := Some t,
                            error_message := Some m\<rparr>
                     else r) rows) = filter (\<lambda>r. cr_id r \<noteq> n) rows" for n
    by (induction rows) simp_all
  then show ?thesis
    by (simp add: update_crawl_failure_def split: option.splits)
qed

lemma run_crawl_completed_sets:
  assumes "r \<in> set (run_crawl_completed rows i t)" and "cr_id r = i"
  shows "crawl_status r = ''completed'' \<and> completion_time r = Some t"
proof -
  from assms(1) obtain r0 where r0:
    "r = (if cr_id r0 = i then r0\<lparr>crawl_status := ''completed'', completion_time := Some t\<rparr> else r0)"
    unfolding run_crawl_completed_def set_map by blast
  show ?thesis
  proof (cases "cr_id r0 = i")
    case True
    with r0 show ?thesis by simp
  next
    case False
    with r0 assms(2) show ?thesis by simp
  qed
qed

lemma update_crawl_failure_sets:
  assumes "r \<in> set (update_crawl_failure True rows (Some n) m t)" and "n \<noteq> 0" and "cr_id r = n"
  shows "crawl_status r = ''failed'' \<and> completion_time r = Some t \<and> error_message r = Some m"
proof -
  from assms(2) have "update_crawl_failure True rows (Some n) m t =
      map (\<lambda>r. if cr_id r = n
                then r\<lparr>crawl_status := ''failed'', completion_time := Some t, error_message := Some m\<rparr>
                else r) rows"
    by (simp add: update_crawl_failure_def)
  with assms(1) have "r \<in> set (map (\<lambda>r. if cr_id r = n
                then r\<lparr>crawl_status := ''failed'', completion_time := Some t, error_message := Some m\<rparr>
                else r) rows)"
    by simp
  then obtain r0 where r0:
    "r = (if cr_id r0 = n
          then r0\<lparr>crawl_status := ''failed'', completion_time := Some t, error_message := Some m\<rparr>
          else r0)"
    unfolding set_map by blast
  show ?thesis
  proof (cases "cr_id r0 = n")
    case True
    with r0 show ?thesis by simp
  next
    case False
    with r0 assms(3) show ?thesis by simp
  qed
qed

text \<open>
  C3, as amended. A completion or failure call is carried out whatever the current status
  of the record: it sets the status and the elapsed time (and the error detail, for a
  failure) of every record with that id, also of one already completed or failed, and it
  leaves the records with other ids as they were. Only repeating the same call with the
  same elapsed time (and error detail) changes nothing further.
\<close>

theorem close_is_unconditional:
  "run_crawl_completed (run_crawl_completed rows i t) i t = run_crawl_completed rows i t
   \<and> update_crawl_failure ok (update_crawl_failure ok rows j m t) j m t
       = update_crawl_failure ok rows j m t
   \<and> filter (\<lambda>r. cr_id r \<noteq> i) (run_crawl_completed rows i t) = filter (\<lambda>r. cr_id r \<noteq> i) rows
   \<and> filter (\<lambda>r. Some (cr_id r) \<noteq> j) (update_crawl_failure ok rows j m t)
       = filter (\<lambda>r. Some (cr_id r) \<noteq> j) rows
   \<and> (\<forall>r \<in> set (run_crawl_completed rows i t).
         cr_id r = i \<longrightarrow> crawl_status r = ''completed'' \<and> completion_time r = Some t)
   \<and> (\<forall>r \<in> set (update_crawl_failure True rows (Some (Suc n)) m t).
         cr_id r = Suc n \<longrightarrow>
           crawl_status r = ''failed'' \<and> completion_time r = Some t \<and> error_message r = Some m)"
  using run_crawl_completed_idem update_crawl_failure_idem run_crawl_completed_others
    update_crawl_failure_others run_crawl_completed_sets
    update_crawl_failure_sets [where n = "Suc n"]
  by (intro conjI ballI impI) simp_all

lemma completed_ledger_eq:
  "completed_ledger = [\<lparr>cr_id = 1, url = ''http://x'', crawl_date = 0, config_used = ''default'',
      crawl_status = ''completed'', total_urls = None, completion_time = Some 5,
      error_message = None, command_executed = Some ''cmd''\<rparr>]"
  by (simp add: completed_ledger_def run_crawl_completed_def run_crawl_start_def)

text \<open>
  C3 as stated fails: on a record already completed, a later failure call sets the status
  to failed, and a later completion call replaces the elapsed time.
\<close>

theorem terminal_close_counterexample:
  "list_all terminal completed_ledger
   \<and> map crawl_status (update_crawl_failure True completed_ledger (Some 1) ''boom'' 9) = [''failed'']
   \<and> map completion_time (run_crawl_completed completed_ledger 1 9) = [Some 9]
   \<and> update_crawl_failure True completed_ledger (Some 1) ''boom'' 9 \<noteq> completed_ledger"
  by (simp add: completed_ledger_eq terminal_def update_crawl_failure_def run_crawl_completed_def)

theorem close_is_unconditional_witness:
  "cr_id (hd completed_ledger) = 1
   \<and> crawl_status (hd (update_crawl_failure True completed_ledger (Some (Suc 0)) ''boom'' 9)) = ''failed''
   \<and> crawl_status (hd (run_crawl_completed completed_ledger 1 9)) = ''completed''"
  using close_is_unconditional [of completed_ledger 1 9 True "Some 1" "''boom''" 0]
  by (simp add: completed_ledger_eq update_crawl_failure_def run_crawl_completed_def)

section \<open>Construction\<close>

lemma resolve_column_exists:
  "resolve_global ''column_exists'' = Some (NameError ''name column_exists is not defined'')"
  by (simp add: resolve_global_def module_globals_def)

text \<open>
  C9, as amended. Constructing a \<^verbatim>\<open>DatabaseManager\<close> never completes. When the
  database file opens and the table script runs, \<^verbatim>\<open>setup_database\<close> raises
  \<^verbatim>\<open>NameError\<close>, because \<^verbatim>\<open>column_exists\<close> is an attribute of the class and
  not a module-level name; when the store refuses the connection or the script, the
  exception that leaves the constructor is that \<^verbatim>\<open>sqlite3\<close> error instead.
\<close>

theorem setup_database_never_completes:
  "fst (init env db) =
     Some (if fault env 0 then OperationalError ''unable to open database file''
           else if fault env 1 then OperationalError ''disk I/O error''
           else NameError ''name column_exists is not defined'')
   \<and> ''column_exists'' \<in> set class_attributes \<and> ''column_exists'' \<notin> set module_globals"
  by (simp add: init_def setup_database_def connect_def new_dbm_def execute_def Let_def
      resolve_column_exists class_attributes_def module_globals_def)

theorem setup_database_never_completes_witness:
  "fst (init env0 Map.empty) = Some (NameError ''name column_exists is not defined'')"
  using setup_database_never_completes [of env0 Map.empty]
  by (simp add: env0_def)

text \<open>
  C9 as stated fails: when the database file cannot be opened the constructor raises the
  \<^verbatim>\<open>sqlite3\<close> error, not \<^verbatim>\<open>NameError\<close>.
\<close>

theorem setup_database_counterexample:
  "fst (init env_unopenable Map.empty) = Some (OperationalError ''unable to open database file'')"
  by (simp add: init_def setup_database_def connect_def new_dbm_def env_unopenable_def env0_def)

section \<open>Statements, traces and the schema dictionary\<close>

lemma apply_stmt_frame:
  "apply_stmt env now st s = Inr s' \<Longrightarrow>
   table_schemas s' = table_schemas s \<and> conn s' = conn s \<and> trace s' = trace s"
  by (cases st) (auto simp: begin_implicit_def Let_def split: option.splits if_splits)

lemma execute_cases:
  assumes "execute env st s = (r, s')"
  obtains (closed) "conn s \<noteq> Open" "s' = s" "r \<noteq> None"
  | (rejected) "conn s = Open" "r \<noteq> None" "s' = s\<lparr>trace := trace s @ [st]\<rparr>"
  | (accepted) "conn s = Open" "r = None"
      "apply_stmt env (clock env (length (trace s))) st (s\<lparr>trace := trace s @ [st]\<rparr>) = Inr s'"
  using assms
  by (auto simp: execute_def Let_def split: conn_state.splits if_splits sum.splits)

lemma execute_frame:
  "execute env st s = (r, s') \<Longrightarrow>
   table_schemas s' = table_schemas s \<and> conn s' = conn s
   \<and> trace s' = (if conn s = Open then trace s @ [st] else trace s)"
  by (erule execute_cases) (auto dest: apply_stmt_frame)

lemma execute_table_schemas [simp]: "table_schemas (snd (execute env st s)) = table_schemas s"
  using execute_frame [OF surjective_pairing] by blast

lemma execute_conn [simp]: "conn (snd (execute env st s)) = conn s"
  using execute_frame [OF surjective_pairing] by blast

lemma execute_trace:
  "trace (snd (execute env st s)) = (if conn s = Open then trace s @ [st] else trace s)"
  using execute_frame [OF surjective_pairing] by blast

lemma run_table_schemas [simp]: "table_schemas (snd (run env sts s)) = table_schemas s"
proof (induction sts arbitrary: s)
  case Nil
  then show ?case by simp
next
  case (Cons st sts)
  show ?case
  proof (cases "execute env st s")
    case (Pair r s1)
    then have "table_schemas s1 = table_schemas s"
      using execute_table_schemas [of env st s] by simp
    with Pair Cons.IH [of s1] show ?thesis
      by (cases r) simp_all
  qed
qed

lemma rollback_table_schemas [simp]: "table_schemas (snd (rollback s)) = table_schemas s"
  by (simp add: rollback_def split: conn_state.splits)

lemma connect_table_schemas [simp]: "table_schemas (snd (connect env s)) = table_schemas s"
  by (simp add: connect_def Let_def)

lemma close_table_schemas [simp]: "table_schemas (close s) = table_schemas s"
  by (simp add: close_def split: conn_state.splits)

lemma add_missing_columns_table_schemas [simp]:
  "table_schemas (snd (add_missing_columns env t cur ds s)) = table_schemas s"
proof (induction ds arbitrary: s)
  case Nil
  then show ?case by simp
next
  case (Cons d ds)
  show ?case
  proof (cases "first_word d \<in> set cur")
    case True
    with Cons.IH show ?thesis by simp
  next
    case False
    show ?thesis
    proof (cases "execute env (Alter_add_column t d) s")
      case (Pair r s1)
      then have "table_schemas s1 = table_schemas s"
        using execute_table_schemas [of env "Alter_add_column t d" s] by simp
      with Pair False Cons.IH [of s1] show ?thesis
        by (simp split: option.splits exn.splits)
    qed
  qed
qed

lemma column_exists_table_schemas [simp]:
  "table_schemas (snd (column_exists env s t c)) = table_schemas s"
proof (cases "execute env (Pragma_table_info t) s")
  case (Pair r s1)
  then have "table_schemas s1 = table_schemas s"
    using execute_table_schemas [of env "Pragma_table_info t" s] by simp
  with Pair show ?thesis
    by (cases r) (simp_all add: column_exists_def)
qed


lemma execute_ts: "execute env st s = (r, s') \<Longrightarrow> table_schemas s' = table_schemas s"
  using execute_table_schemas [of env st s] by simp

lemma run_ts: "run env sts s = (r, s') \<Longrightarrow> table_schemas s' = table_schemas s"
  using run_table_schemas [of env sts s] by simp

lemma rollback_ts: "rollback s = (r, s') \<Longrightarrow> table_schemas s' = table_schemas s"
  using rollback_table_schemas [of s] by simp

lemma connect_ts: "connect env s = (r, s') \<Longrightarrow> table_schemas s' = table_schemas s"
  using connect_table_schemas [of env s] by simp

lemma add_missing_columns_ts:
  "add_missing_columns env t cur ds s = (r, s') \<Longrightarrow> table_schemas s' = table_schemas s"
  using add_missing_columns_table_schemas [of env t cur ds s] by simp

lemma column_exists_ts:
  "column_exists env s t c = (r, s') \<Longrightarrow> table_schemas s' = table_schemas s"
  using column_exists_table_schemas [of env s t c] by simp

lemmas ts_dest = execute_ts run_ts rollback_ts connect_ts add_missing_columns_ts column_exists_ts

lemma setup_database_table_schemas [simp]:
  "table_schemas (snd (setup_database env s)) = table_schemas s"
  by (auto simp: setup_database_def split: prod.splits option.splits sum.splits bool.splits
      dest!: ts_dest)

lemma ensure_table_schemas [simp]:
  "table_schemas (snd (ensure_table_for_dataframe env s t df)) = table_schemas s"
  by (auto simp: ensure_table_for_dataframe_def Let_def
      split: prod.splits option.splits if_splits dest!: ts_dest)

lemma maintenance_handler_table_schemas [simp]:
  "table_schemas (snd (maintenance_handler env label log_id e s)) = table_schemas s"
  by (auto simp: maintenance_handler_def split: prod.splits option.splits dest!: ts_dest)

lemma maintenance_handler_ts:
  "maintenance_handler env label log_id e s = (r, s') \<Longrightarrow> table_schemas s' = table_schemas s"
  using maintenance_handler_table_schemas [of env label log_id e s] by simp

lemma optimize_table_schemas [simp]:
  "table_schemas (snd (optimize_database env s)) = table_schemas s"
  by (auto simp: optimize_database_def Let_def split: prod.splits option.splits
      dest!: ts_dest maintenance_handler_ts)

lemma cleanup_table_schemas [simp]:
  "table_schemas (snd (cleanup_old_records env s days)) = table_schemas s"
  by (auto simp: cleanup_old_records_def Let_def split: prod.splits option.splits
      dest!: ts_dest maintenance_handler_ts)

lemma to_sql_table_schemas [simp]:
  "table_schemas (snd (to_sql env s t df)) = table_schemas s"
  by (auto simp: to_sql_def split: prod.splits option.splits dest!: ts_dest)

lemma ensure_ts:
  "ensure_table_for_dataframe env s t df = (r, s') \<Longrightarrow> table_schemas s' = table_schemas s"
  using ensure_table_schemas [of env s t df] by simp

lemma to_sql_ts:
  "to_sql env s t df = (r, s') \<Longrightarrow> table_schemas s' = table_schemas s"
  using to_sql_table_schemas [of env s t df] by simp

lemma process_table_schemas [simp]:
  "table_schemas (snd (process_screaming_frog_csv env s f cid)) = table_schemas s"
  by (auto simp: process_screaming_frog_csv_def Let_def split: prod.splits option.splits sum.splits
      dest!: ensure_ts to_sql_ts)

lemma reachable_table_schemas: "reachable env s \<Longrightarrow> table_schemas s = Map.empty"
  by (induction rule: reachable.induct) (simp_all add: new_dbm_def)


subsection \<open>What a call issues\<close>

lemma issues_only_refl [simp]: "issues_only P s s"
  by (simp add: issues_only_def)

lemma issues_only_trans:
  "issues_only P s s1 \<Longrightarrow> issues_only P s1 s2 \<Longrightarrow> issues_only P s s2"
  by (auto simp: issues_only_def)

lemma issues_only_issued: "issues_only P s s' \<Longrightarrow> list_all P (issued s s')"
  by (auto simp: issues_only_def issued_def)

lemma execute_issues_only: "P st \<Longrightarrow> issues_only P s (snd (execute env st s))"
  by (simp add: issues_only_def execute_trace)

lemma run_issues_only: "list_all P sts \<Longrightarrow> issues_only P s (snd (run env sts s))"
proof (induction sts arbitrary: s)
  case Nil
  then show ?case by simp
next
  case (Cons st sts)
  then have st: "P st" and sts: "list_all P sts" by simp_all
  show ?case
  proof (cases "execute env st s")
    case (Pair r s1)
    have "issues_only P s (snd (execute env st s))"
      using st by (rule execute_issues_only)
    with Pair have step: "issues_only P s s1" by simp
    show ?thesis
    proof (cases r)
      case None
      with Pair step Cons.IH [OF sts, of s1] show ?thesis
        by (auto intro: issues_only_trans)
    next
      case (Some e)
      with Pair step show ?thesis by simp
    qed
  qed
qed

lemma rollback_trace [simp]: "trace (snd (rollback s)) = trace s"
  by (simp add: rollback_def split: conn_state.splits)

lemma rollback_issues_only: "issues_only P s (snd (rollback s))"
  by (simp add: issues_only_def)

lemma maintenance_handler_issues_only:
  assumes "\<And>st err n. P (Update_maintenance_log st err n)" and "P Commit"
  shows "issues_only P s (snd (maintenance_handler env label log_id e s))"
proof (cases "rollback s")
  case (Pair r s1)
  then have s1: "issues_only P s s1"
    using rollback_issues_only [of P s] by simp
  show ?thesis
  proof (cases r)
    case (Some e')
    with Pair s1 show ?thesis by (simp add: maintenance_handler_def)
  next
    case None
    show ?thesis
    proof (cases log_id)
      case None
      with \<open>r = None\<close> Pair s1 show ?thesis by (simp add: maintenance_handler_def)
    next
      case (Some n)
      have "issues_only P s1
              (snd (run env [Update_maintenance_log ''failed'' (Some (label @ exn_str e)) n, Commit] s1))"
        by (rule run_issues_only) (simp add: assms)
      with s1 have "issues_only P s
              (snd (run env [Update_maintenance_log ''failed'' (Some (label @ exn_str e)) n, Commit] s1))"
        by (rule issues_only_trans)
      with Some \<open>r = None\<close> Pair s1 show ?thesis
        by (simp add: maintenance_handler_def)
    qed
  qed
qed

lemma cleanup_issues_no_delete:
  assumes empty: "table_schemas s = Map.empty"
  shows "issues_only (\<lambda>st. \<not> is_delete st) s (snd (cleanup_old_records env s days))"
proof -
  let ?P = "\<lambda>st. \<not> is_delete st"
  let ?first = "[Begin, Insert_maintenance_log ''cleanup''
                   (''Removing records older than '' @ str_int days @ '' days'') ''in_progress'']"
  have h: "issues_only ?P s0 (snd (maintenance_handler env label log_id e s0))" for s0 label log_id e
    by (rule maintenance_handler_issues_only) simp_all
  show ?thesis
  proof (cases "run env ?first s")
    case (Pair r s1)
    have "issues_only ?P s (snd (run env ?first s))"
      by (rule run_issues_only) simp
    with Pair have s1: "issues_only ?P s s1" by simp
    have ts1: "table_schemas s1 = Map.empty"
      using run_table_schemas [of env ?first s] Pair empty by simp
    show ?thesis
    proof (cases r)
      case (Some e)
      with Pair s1 h [of s1] show ?thesis
        by (auto simp: cleanup_old_records_def intro: issues_only_trans)
    next
      case None
      let ?second = "[Update_maintenance_log ''completed'' None (lastrowid s1), Commit]"
      show ?thesis
      proof (cases "run env ?second s1")
        case (Pair r2 s2)
        have "issues_only ?P s1 (snd (run env ?second s1))"
          by (rule run_issues_only) simp
        with Pair have "issues_only ?P s1 s2" by simp
        with s1 have s2: "issues_only ?P s s2"
          by (rule issues_only_trans)
        show ?thesis
        proof (cases r2)
          case None
          with Pair \<open>r = None\<close> \<open>run env ?first s = (r, s1)\<close> ts1 s2 show ?thesis
            by (simp add: cleanup_old_records_def tables_to_clean_def Let_def)
        next
          case (Some e)
          with Pair \<open>r = None\<close> \<open>run env ?first s = (r, s1)\<close> ts1 s2 h [of s2] show ?thesis
            by (auto simp: cleanup_old_records_def tables_to_clean_def Let_def
                intro: issues_only_trans)
        qed
      qed
    qed
  qed
qed

lemma ensure_issues_create_only:
  assumes empty: "table_schemas s = Map.empty"
  shows "issues_only (\<lambda>st. \<not> is_table_info st \<and> \<not> is_alter st) s
           (snd (ensure_table_for_dataframe env s t df))"
proof -
  let ?P = "\<lambda>st. \<not> is_table_info st \<and> \<not> is_alter st"
  show ?thesis
  proof (cases "execute env (Create_table t (column_defs df)) s")
    case (Pair r s1)
    have "issues_only ?P s (snd (execute env (Create_table t (column_defs df)) s))"
      by (rule execute_issues_only) simp
    with Pair have s1: "issues_only ?P s s1" by simp
    show ?thesis
    proof (cases r)
      case (Some e)
      with Pair s1 empty show ?thesis
        by (simp add: ensure_table_for_dataframe_def)
    next
      case None
      have "issues_only ?P s1 (snd (execute env Commit s1))"
        by (rule execute_issues_only) simp
      with s1 have "issues_only ?P s (snd (execute env Commit s1))"
        by (rule issues_only_trans)
      with None Pair empty show ?thesis
        by (simp add: ensure_table_for_dataframe_def)
    qed
  qed
qed

lemma execute_commit:
  "execute env Commit s = (r, s') \<Longrightarrow> store s' = store s \<and> (r = None \<longrightarrow> snapshot s' = None)"
  by (erule execute_cases) auto

section \<open>The schema dictionary stays empty\<close>

text \<open>
  The only method that writes \<^verbatim>\<open>table_schemas\<close>, for contrast: once run on an open
  connection that accepts the query, every table of the store is a key of the dictionary.
\<close>

lemma load_existing_schemas_populates:
  assumes "conn s = Open" and "\<not> fault env (length (trace s))" and "store s t = Some tb"
  shows "table_schemas (snd (load_existing_schemas env s)) t = Some (tcolumns tb)"
  using assms by (simp add: load_existing_schemas_def execute_def Let_def)

text \<open>
  C10. In every state an instance can reach through its public methods the dictionary
  \<^verbatim>\<open>table_schemas\<close> is empty. Hence \<^verbatim>\<open>ensure_table_for_dataframe\<close> never
  takes the branch for an existing table (it issues no \<^verbatim>\<open>PRAGMA table_info\<close> and no
  \<^verbatim>\<open>ALTER TABLE\<close>), and \<^verbatim>\<open>cleanup_old_records\<close> never issues a
  \<^verbatim>\<open>DELETE\<close>, whatever the table name, the frame or the retention window.
\<close>

theorem table_schemas_stays_empty:
  assumes "reachable env s"
  shows "table_schemas s = Map.empty
    \<and> list_all (\<lambda>st. \<not> is_table_info st \<and> \<not> is_alter st)
         (issued s (snd (ensure_table_for_dataframe env s t df)))
    \<and> list_all (\<lambda>st. \<not> is_delete st) (issued s (snd (cleanup_old_records env s days)))"
proof -
  from assms have e: "table_schemas s = Map.empty"
    by (rule reachable_table_schemas)
  from e show ?thesis
    by (simp add: issues_only_issued ensure_issues_create_only cleanup_issues_no_delete)
qed

theorem table_schemas_stays_empty_witness:
  "reachable env0 (snd (init env0 Map.empty))
   \<and> table_schemas (snd (init env0 Map.empty)) = Map.empty
   \<and> list_all (\<lambda>st. \<not> is_delete st)
        (issued (snd (init env0 Map.empty)) (snd (cleanup_old_records env0 (snd (init env0 Map.empty)) 30)))"
proof -
  have r: "reachable env0 (snd (init env0 Map.empty))"
    unfolding init_def by (rule r_setup) (rule r_new)
  from r table_schemas_stays_empty [OF r, of "''sf_a''" example_frame 30] show ?thesis
    by simp
qed

section \<open>Schema reconciliation only adds columns\<close>

lemma only_added_refl [simp]: "only_added t ds db db"
  by (simp add: only_added_def)

lemma only_added_trans:
  assumes "only_added t ds db db1" and "only_added t ds db1 db2"
  shows "only_added t ds db db2"
  unfolding only_added_def
proof (intro allI impI)
  fix u tb
  assume "db u = Some tb"
  with assms(1) obtain tb1 a1 where 1: "db1 u = Some tb1" "tcolumns tb1 = tcolumns tb @ a1"
    "trows tb1 = trows tb" "set a1 \<subseteq> set ds" "\<forall>d \<in> set a1. first_word d \<notin> set (col_names tb)"
    "u \<noteq> t \<longrightarrow> a1 = []"
    unfolding only_added_def by blast
  from assms(2) 1(1) obtain tb2 a2 where 2: "db2 u = Some tb2" "tcolumns tb2 = tcolumns tb1 @ a2"
    "trows tb2 = trows tb1" "set a2 \<subseteq> set ds" "\<forall>d \<in> set a2. first_word d \<notin> set (col_names tb1)"
    "u \<noteq> t \<longrightarrow> a2 = []"
    unfolding only_added_def by blast
  have "set (col_names tb) \<subseteq> set (col_names tb1)"
    using 1(2) by (auto simp: col_names_def)
  with 2(5) have "\<forall>d \<in> set a2. first_word d \<notin> set (col_names tb)" by blast
  with 1 2 have "db2 u = Some tb2 \<and> tcolumns tb2 = tcolumns tb @ (a1 @ a2) \<and> trows tb2 = trows tb
      \<and> set (a1 @ a2) \<subseteq> set ds \<and> (\<forall>d \<in> set (a1 @ a2). first_word d \<notin> set (col_names tb))
      \<and> (u \<noteq> t \<longrightarrow> a1 @ a2 = [])"
    by auto
  then show "\<exists>tb' added. db2 u = Some tb' \<and> tcolumns tb' = tcolumns tb @ added \<and> trows tb' = trows tb
      \<and> set added \<subseteq> set ds \<and> (\<forall>d \<in> set added. first_word d \<notin> set (col_names tb))
      \<and> (u \<noteq> t \<longrightarrow> added = [])"
    by blast
qed

lemma has_column_name: "\<not> has_column tb c \<Longrightarrow> c \<notin> set (col_names tb)"
  by (auto simp: has_column_def)

lemma apply_alter_only_added:
  assumes "apply_stmt env now (Alter_add_column t d) s = Inr s'" and "d \<in> set ds"
  shows "only_added t ds (store s) (store s')"
proof -
  from assms(1) obtain tb where tb: "store s t = Some tb" "\<not> has_column tb (first_word d)"
    "s' = s\<lparr>store := (store s)(t \<mapsto> tb\<lparr>tcolumns := tcolumns tb @ [d]\<rparr>)\<rparr>"
    by (auto split: option.splits if_splits)
  show ?thesis
    unfolding only_added_def
  proof (intro allI impI)
    fix u tb0
    assume u: "store s u = Some tb0"
    show "\<exists>tb' added. store s' u = Some tb' \<and> tcolumns tb' = tcolumns tb0 @ added
        \<and> trows tb' = trows tb0 \<and> set added \<subseteq> set ds
        \<and> (\<forall>d \<in> set added. first_word d \<notin> set (col_names tb0)) \<and> (u \<noteq> t \<longrightarrow> added = [])"
    proof (cases "u = t")
      case True
      with u tb have "tb0 = tb" by simp
      with True tb assms(2) has_column_name [OF tb(2)] show ?thesis
        by (intro exI [of _ "tb\<lparr>tcolumns := tcolumns tb @ [d]\<rparr>"] exI [of _ "[d]"]) simp
    next
      case False
      with u tb show ?thesis
        by (intro exI [of _ tb0] exI [of _ "[]"]) simp
    qed
  qed
qed

lemma apply_create_only_added:
  assumes "apply_stmt env now (Create_table t cols) s = Inr s'"
  shows "only_added t ds (store s) (store s')"
proof -
  from assms obtain tb where tb: "store s t = None" "s' = s\<lparr>store := (store s)(t \<mapsto> tb)\<rparr>"
    by (auto split: option.splits if_splits)
  show ?thesis
    unfolding only_added_def
  proof (intro allI impI)
    fix u tb0
    assume u: "store s u = Some tb0"
    with tb have "u \<noteq> t" by auto
    with u tb show "\<exists>tb' added. store s' u = Some tb' \<and> tcolumns tb' = tcolumns tb0 @ added
        \<and> trows tb' = trows tb0 \<and> set added \<subseteq> set ds
        \<and> (\<forall>d \<in> set added. first_word d \<notin> set (col_names tb0)) \<and> (u \<noteq> t \<longrightarrow> added = [])"
      by (intro exI [of _ tb0] exI [of _ "[]"]) simp
  qed
qed

text \<open>The statements of a schema reconciliation for table \<open>t\<close> with definitions \<open>ds\<close>.\<close>

lemma execute_only_added:
  assumes "st = Pragma_table_info t \<or> st = Commit \<or> st = Create_table t cols
           \<or> (\<exists>d \<in> set ds. st = Alter_add_column t d)"
  shows "only_added t ds (store s) (store (snd (execute env st s)))"
proof (cases "execute env st s")
  case (Pair r s')
  then show ?thesis
  proof (cases rule: execute_cases)
    case closed
    with Pair show ?thesis by simp
  next
    case rejected
    with Pair show ?thesis by simp
  next
    case accepted
    let ?s1 = "s\<lparr>trace := trace s @ [st]\<rparr>"
    from assms consider "st = Pragma_table_info t" | "st = Commit" | "st = Create_table t cols"
      | d where "d \<in> set ds" "st = Alter_add_column t d"
      by blast
    then have "only_added t ds (store s) (store s')"
    proof cases
      case 1
      with accepted(3) show ?thesis by auto
    next
      case 2
      with accepted(3) show ?thesis by auto
    next
      case 3
      from accepted(3) [unfolded 3]
      have "only_added t ds (store (s\<lparr>trace := trace s @ [Create_table t cols]\<rparr>)) (store s')"
        by (rule apply_create_only_added)
      then show ?thesis by simp
    next
      case 4
      from accepted(3) [unfolded 4(2)] 4(1)
      have "only_added t ds (store (s\<lparr>trace := trace s @ [Alter_add_column t d]\<rparr>)) (store s')"
        by (rule apply_alter_only_added)
      then show ?thesis by simp
    qed
    with Pair show ?thesis by simp
  qed
qed

lemma add_missing_columns_only_added:
  "set cs \<subseteq> set ds \<Longrightarrow>
   only_added t ds (store s) (store (snd (add_missing_columns env t cur cs s)))"
proof (induction cs arbitrary: s)
  case Nil
  then show ?case by simp
next
  case (Cons d cs)
  then have d: "d \<in> set ds" and cs: "set cs \<subseteq> set ds" by simp_all
  show ?case
  proof (cases "first_word d \<in> set cur")
    case True
    with Cons.IH [OF cs] show ?thesis by simp
  next
    case False
    show ?thesis
    proof (cases "execute env (Alter_add_column t d) s")
      case (Pair r s1)
      have "only_added t ds (store s) (store (snd (execute env (Alter_add_column t d) s)))"
        using d by (intro execute_only_added) blast
      with Pair have 1: "only_added t ds (store s) (store s1)" by simp
      have 2: "only_added t ds (store s1) (store (snd (add_missing_columns env t cur cs s1)))"
        by (rule Cons.IH [OF cs])
      from 1 2 have 3: "only_added t ds (store s) (store (snd (add_missing_columns env t cur cs s1)))"
        by (rule only_added_trans)
      from Pair False 1 3 show ?thesis
        by (simp split: option.splits exn.splits)
    qed
  qed
qed

lemma ensure_only_added:
  "only_added t (column_defs df) (store s) (store (snd (ensure_table_for_dataframe env s t df)))"
proof -
  let ?ds = "column_defs df"
  define mid where "mid =
     (if table_schemas s t \<noteq> None
      then (case execute env (Pragma_table_info t) s of
              (Some e, s1) \<Rightarrow> (Some e, s1)
            | (None, s1) \<Rightarrow> add_missing_columns env t (current_columns s1 t) ?ds s1)
      else execute env (Create_table t ?ds) s)"
  have e: "only_added t ?ds (store s0) (store (snd (execute env st s0)))"
    if "st = Pragma_table_info t \<or> st = Commit \<or> st = Create_table t ?ds" for st s0
    using that by (intro execute_only_added [where cols = ?ds]) blast
  have mid: "only_added t ?ds (store s) (store (snd mid))"
  proof (cases "table_schemas s t \<noteq> None")
    case False
    then show ?thesis using e [of "Create_table t ?ds" s] by (simp add: mid_def)
  next
    case True
    show ?thesis
    proof (cases "execute env (Pragma_table_info t) s")
      case (Pair r s1)
      with e [of "Pragma_table_info t" s] have 1: "only_added t ?ds (store s) (store s1)" by simp
      show ?thesis
      proof (cases r)
        case (Some x)
        with Pair True 1 show ?thesis by (simp add: mid_def)
      next
        case None
        have "only_added t ?ds (store s1)
                (store (snd (add_missing_columns env t (current_columns s1 t) ?ds s1)))"
          by (rule add_missing_columns_only_added) simp
        with 1 have "only_added t ?ds (store s)
                (store (snd (add_missing_columns env t (current_columns s1 t) ?ds s1)))"
          by (rule only_added_trans)
        with None Pair True show ?thesis by (simp add: mid_def)
      qed
    qed
  qed
  have res: "ensure_table_for_dataframe env s t df =
      (case mid of (Some e, s2) \<Rightarrow> (Some e, s2) | (None, s2) \<Rightarrow> execute env Commit s2)"
    by (simp add: ensure_table_for_dataframe_def mid_def Let_def)
  show ?thesis
  proof (cases mid)
    case (Pair r s2)
    with mid have 2: "only_added t ?ds (store s) (store s2)" by simp
    show ?thesis
    proof (cases r)
      case (Some x)
      with Pair 2 res show ?thesis by simp
    next
      case None
      from 2 e [of Commit s2] have "only_added t ?ds (store s) (store (snd (execute env Commit s2)))"
        by (auto intro: only_added_trans)
      with None Pair res show ?thesis by simp
    qed
  qed
qed

text \<open>
  Whatever a call of \<^verbatim>\<open>ensure_table_for_dataframe\<close> does and however it ends, every
  table that existed before the call exists after it with the same rows and with its
  column definitions unchanged and in the same order; what the call appends to them are
  requested definitions whose names the table did not yet have.
\<close>

lemma ensure_keeps_columns:
  assumes "ensure_table_for_dataframe env s t df = (r, s')" and "store s u = Some tb"
  shows "\<exists>tb' added. store s' u = Some tb' \<and> tcolumns tb' = tcolumns tb @ added
           \<and> trows tb' = trows tb \<and> set added \<subseteq> set (column_defs df)
           \<and> (\<forall>d \<in> set added. first_word d \<notin> set (col_names tb))
           \<and> (u \<noteq> t \<longrightarrow> added = [])"
proof -
  have "only_added t (column_defs df) (store s) (store (snd (ensure_table_for_dataframe env s t df)))"
    by (rule ensure_only_added)
  with assms(1) have "only_added t (column_defs df) (store s) (store s')" by simp
  with assms(2) show ?thesis unfolding only_added_def by blast
qed

section \<open>What the maintenance and ingestion methods do in general\<close>

text \<open>
  On a state whose \<^verbatim>\<open>table_schemas\<close> is empty, a call of
  \<^verbatim>\<open>ensure_table_for_dataframe\<close> for a table that exists raises and changes nothing.
\<close>

lemma ensure_existing_table_raises:
  assumes "table_schemas s = Map.empty" and "conn s = Open" and "\<not> fault env (length (trace s))"
    and "store s t = Some tb"
  shows "ensure_table_for_dataframe env s t df =
           (Some (OperationalError (''table '' @ t @ '' already exists'')),
            s\<lparr>trace := trace s @ [Create_table t (column_defs df)]\<rparr>)"
  using assms by (simp add: ensure_table_for_dataframe_def execute_def Let_def)

text \<open>
  A maintenance run that fails after its log entry was inserted leaves the store exactly as
  it was before the call: the entry was inserted inside the transaction that the handler
  rolls back, its id is larger than every id in the table, and so the handler's UPDATE
  finds no row to mark as failed.
\<close>

lemma row_id_less_next: "r \<in> set rows \<Longrightarrow> row_id r < next_rowid rows"
proof -
  have "m \<le> fold max xs m \<and> (\<forall>x \<in> set xs. x \<le> fold max xs m)" for xs :: "nat list" and m
  proof (induction xs arbitrary: m)
    case Nil
    then show ?case by simp
  next
    case (Cons x xs)
    from Cons.IH [of "max x m"] show ?case by auto
  qed
  then have "\<forall>x \<in> set (map row_id rows). x \<le> fold max (map row_id rows) 0" by blast
  then show "r \<in> set rows \<Longrightarrow> row_id r < next_rowid rows"
    by (auto simp: next_rowid_def less_Suc_eq_le)
qed

lemma apply_stmt_keeps_snapshot:
  "apply_stmt env now st s = Inr s' \<Longrightarrow> \<not> ends_txn st \<Longrightarrow> snapshot s = Some d \<Longrightarrow>
   snapshot s' = Some d"
  by (cases st) (auto simp: begin_implicit_def Let_def split: option.splits if_splits)

lemma execute_keeps_txn:
  assumes "\<not> ends_txn st" and "in_txn d s"
  shows "in_txn d (snd (execute env st s))"
proof (cases "execute env st s")
  case (Pair r s')
  then show ?thesis
  proof (cases rule: execute_cases)
    case closed
    with Pair assms show ?thesis by simp
  next
    case rejected
    with Pair assms show ?thesis by (simp add: in_txn_def)
  next
    case accepted
    from accepted(3) assms have "snapshot s' = Some d"
      by (intro apply_stmt_keeps_snapshot [OF accepted(3)]) (simp_all add: in_txn_def)
    moreover from accepted(3) assms have "conn s' = Open"
      by (auto dest: apply_stmt_frame simp: in_txn_def)
    ultimately show ?thesis using Pair by (simp add: in_txn_def)
  qed
qed

lemma commit_fails_keeps_txn:
  "execute env Commit s = (Some e, s') \<Longrightarrow> in_txn d s \<Longrightarrow> in_txn d s'"
  by (erule execute_cases) (auto simp: in_txn_def)

lemma run_fails_keeps_txn:
  "list_all (\<lambda>st. \<not> ends_txn st) sts \<Longrightarrow> run env (sts @ [Commit]) s = (Some e, s') \<Longrightarrow>
   in_txn d s \<Longrightarrow> in_txn d s'"
proof (induction sts arbitrary: s)
  case Nil
  then show ?case
    by (auto split: prod.splits option.splits dest: commit_fails_keeps_txn)
next
  case (Cons st sts)
  obtain r s1 where x: "execute env st s = (r, s1)" by (cases "execute env st s")
  from Cons.prems x have s1: "in_txn d s1"
    using execute_keeps_txn [of st d s env] by simp
  show ?case
  proof (cases r)
    case (Some e1)
    with x Cons.prems(2) s1 show ?thesis by simp
  next
    case None
    with x Cons.prems(2) have "run env (sts @ [Commit]) s1 = (Some e, s')" by simp
    with Cons.IH [of s1] Cons.prems(1) s1 show ?thesis by simp
  qed
qed


lemma begin_insert_ok:
  assumes "run env [Begin, Insert_maintenance_log a b c] s = (None, s1)" and "snapshot s = None"
  shows "\<exists>tb. store s ''maintenance_log'' = Some tb \<and> in_txn (store s) s1
              \<and> lastrowid s1 = next_rowid (trows tb)"
proof -
  obtain r0 s0 where b: "execute env Begin s = (r0, s0)" by (cases "execute env Begin s")
  with assms(1) have r0: "r0 = None" and i: "execute env (Insert_maintenance_log a b c) s0 = (None, s1)"
    by (auto split: option.splits prod.splits)
  from b r0 assms(2) have s0: "conn s0 = Open" "snapshot s0 = Some (store s)" "store s0 = store s"
    by (auto elim!: execute_cases split: option.splits)
  from i s0 show ?thesis
    by (auto elim!: execute_cases simp: in_txn_def begin_implicit_def Let_def
        split: option.splits if_splits)
qed

lemma failed_update_finds_no_row:
  assumes "in_txn d s" and "d ''maintenance_log'' = Some tb" and "n = next_rowid (trows tb)"
  shows "store (snd (maintenance_handler env label (Some n) e s)) = d"
proof -
  let ?s1 = "s\<lparr>store := d, snapshot := None\<rparr>"
  let ?u = "Update_maintenance_log ''failed'' (Some (label @ exn_str e)) n"
  from assms(1) have rb: "rollback s = (None, ?s1)"
    by (simp add: rollback_def in_txn_def)
  from assms(3) have n: "n \<noteq> 0" by (simp add: next_rowid_def)
  have same: "map (\<lambda>r. if row_id r = n then f r else r) (trows tb) = trows tb" for f
  proof (intro map_idI)
    fix r
    assume "r \<in> set (trows tb)"
    then have "row_id r < n" unfolding assms(3) by (rule row_id_less_next)
    then show "(if row_id r = n then f r else r) = r" by simp
  qed
  obtain r2 s2 where u: "execute env ?u ?s1 = (r2, s2)" by (cases "execute env ?u ?s1")
  have s2: "store s2 = d"
    using u
  proof (cases rule: execute_cases)
    case closed
    then show ?thesis by simp
  next
    case rejected
    then show ?thesis by simp
  next
    case accepted
    from accepted(3) assms(2) show ?thesis
      by (auto simp: same begin_implicit_def Let_def split: if_splits)
  qed
  have "store (snd (run env [?u, Commit] ?s1)) = d"
  proof (cases r2)
    case (Some x)
    with u s2 show ?thesis by simp
  next
    case None
    obtain r3 s3 where c: "execute env Commit s2 = (r3, s3)" by (cases "execute env Commit s2")
    then have "store s3 = store s2" by (auto dest: execute_commit)
    with None u c s2 show ?thesis by (cases r3) simp_all
  qed
  with rb n show ?thesis
    by (simp add: maintenance_handler_def)
qed

lemma optimize_failure_restores_store:
  assumes "snapshot s = None"
    and "run env [Begin, Insert_maintenance_log ''optimize'' ''Regular database optimization''
                    ''in_progress''] s = (None, s1)"
    and "run env [Vacuum, Analyze, Pragma_optimize,
                  Update_maintenance_log ''completed'' None (lastrowid s1), Commit] s1 = (Some e, s2)"
  shows "store (snd (optimize_database env s)) = store s"
proof -
  from begin_insert_ok [OF assms(2,1)] obtain tb where tb: "store s ''maintenance_log'' = Some tb"
    "in_txn (store s) s1" "lastrowid s1 = next_rowid (trows tb)"
    by blast
  have "in_txn (store s) s2"
    using run_fails_keeps_txn [of "[Vacuum, Analyze, Pragma_optimize,
        Update_maintenance_log ''completed'' None (lastrowid s1)]" env s1 e s2 "store s"]
      assms(3) tb(2) by simp
  then have "store (snd (maintenance_handler env ''Database optimization failed: ''
                (Some (lastrowid s1)) e s2)) = store s"
    using tb(1,3) by (rule failed_update_finds_no_row)
  with assms(2,3) show ?thesis
    by (simp add: optimize_database_def Let_def)
qed

lemma cleanup_failure_restores_store:
  assumes "snapshot s = None"
    and "run env [Begin, Insert_maintenance_log ''cleanup''
                    (''Removing records older than '' @ str_int days @ '' days'') ''in_progress''] s
         = (None, s1)"
    and "run env (map (\<lambda>t. Delete_older t (clock env (length (trace s1)) - days * usec_per_day))
                      (filter (\<lambda>t. table_schemas s1 t \<noteq> None) tables_to_clean)
                  @ [Update_maintenance_log ''completed'' None (lastrowid s1), Commit]) s1
         = (Some e, s2)"
  shows "store (snd (cleanup_old_records env s days)) = store s"
proof -
  let ?deletes = "map (\<lambda>t. Delete_older t (clock env (length (trace s1)) - days * usec_per_day))
                      (filter (\<lambda>t. table_schemas s1 t \<noteq> None) tables_to_clean)"
  from begin_insert_ok [OF assms(2,1)] obtain tb where tb: "store s ''maintenance_log'' = Some tb"
    "in_txn (store s) s1" "lastrowid s1 = next_rowid (trows tb)"
    by blast
  have "list_all (\<lambda>st. \<not> ends_txn st)
          (?deletes @ [Update_maintenance_log ''completed'' None (lastrowid s1)])"
    by (simp add: list_all_iff)
  moreover from assms(3)
  have "run env ((?deletes @ [Update_maintenance_log ''completed'' None (lastrowid s1)]) @ [Commit]) s1
          = (Some e, s2)"
    by simp
  ultimately have "in_txn (store s) s2"
    using tb(2) by (rule run_fails_keeps_txn)
  then have "store (snd (maintenance_handler env ''Cleanup failed: '' (Some (lastrowid s1)) e s2))
               = store s"
    using tb(1,3) by (rule failed_update_finds_no_row)
  with assms(2,3) show ?thesis
    by (simp add: cleanup_old_records_def Let_def)
qed

text \<open>
  With an empty \<^verbatim>\<open>table_schemas\<close> and no transaction left open,
  \<^verbatim>\<open>cleanup_old_records\<close> changes no table but the maintenance log.
\<close>

lemma apply_stmt_log_only:
  "apply_stmt env now st s = Inr s' \<Longrightarrow> maintenance_stmt st \<Longrightarrow> log_only d s \<Longrightarrow> log_only d s'"
  by (cases st) (auto simp: log_only_def begin_implicit_def Let_def split: option.splits if_splits)

lemma execute_log_only:
  assumes "maintenance_stmt st" and "log_only d s"
  shows "log_only d (snd (execute env st s))"
proof (cases "execute env st s")
  case (Pair r s')
  then show ?thesis
  proof (cases rule: execute_cases)
    case closed
    with Pair assms show ?thesis by simp
  next
    case rejected
    with Pair assms show ?thesis by (simp add: log_only_def)
  next
    case accepted
    from assms(2) have "log_only d (s\<lparr>trace := trace s @ [st]\<rparr>)" by (simp add: log_only_def)
    with accepted(3) assms(1) have "log_only d s'" by (rule apply_stmt_log_only)
    with Pair show ?thesis by simp
  qed
qed

lemma run_log_only:
  "list_all maintenance_stmt sts \<Longrightarrow> log_only d s \<Longrightarrow> log_only d (snd (run env sts s))"
proof (induction sts arbitrary: s)
  case Nil
  then show ?case by simp
next
  case (Cons st sts)
  obtain r s1 where x: "execute env st s = (r, s1)" by (cases "execute env st s")
  with Cons.prems execute_log_only [of st d s env] have s1: "log_only d s1" by simp
  show ?case
  proof (cases r)
    case (Some e)
    with x s1 show ?thesis by simp
  next
    case None
    with x Cons.IH [of s1] Cons.prems(1) s1 show ?thesis by simp
  qed
qed

lemma rollback_log_only: "log_only d s \<Longrightarrow> log_only d (snd (rollback s))"
  by (auto simp: rollback_def log_only_def split: conn_state.splits option.splits)

lemma maintenance_handler_log_only:
  assumes "log_only d s"
  shows "log_only d (snd (maintenance_handler env label log_id e s))"
proof -
  obtain r1 s1 where rb: "rollback s = (r1, s1)" by (cases "rollback s")
  with rollback_log_only [OF assms] have s1: "log_only d s1" by simp
  have "log_only d (snd (run env [Update_maintenance_log ''failed'' (Some (label @ exn_str e)) n,
                                   Commit] s1))" for n
    using s1 by (intro run_log_only) simp_all
  with rb s1 show ?thesis
    by (simp add: maintenance_handler_def split: option.splits)
qed

lemma cleanup_log_only:
  assumes empty: "table_schemas s = Map.empty" and d: "log_only d s"
  shows "log_only d (snd (cleanup_old_records env s days))"
proof -
  let ?first = "[Begin, Insert_maintenance_log ''cleanup''
                   (''Removing records older than '' @ str_int days @ '' days'') ''in_progress'']"
  obtain r1 s1 where f: "run env ?first s = (r1, s1)" by (cases "run env ?first s")
  have s1: "log_only d s1"
    using run_log_only [of ?first d s env] d f by simp
  have ts1: "table_schemas s1 = Map.empty"
    using run_table_schemas [of env ?first s] f empty by simp
  show ?thesis
  proof (cases r1)
    case (Some e)
    with f maintenance_handler_log_only [OF s1] show ?thesis
      by (simp add: cleanup_old_records_def)
  next
    case None
    let ?second = "[Update_maintenance_log ''completed'' None (lastrowid s1), Commit]"
    obtain r2 s2 where g: "run env ?second s1 = (r2, s2)" by (cases "run env ?second s1")
    have s2: "log_only d s2"
      using run_log_only [of ?second d s1 env] s1 g by simp
    from None f g ts1 s2 maintenance_handler_log_only [OF s2] show ?thesis
      by (cases r2) (simp_all add: cleanup_old_records_def tables_to_clean_def Let_def)
  qed
qed

lemma cleanup_never_deletes:
  assumes "reachable env s" and "snapshot s = None" and "u \<noteq> ''maintenance_log''"
  shows "store (snd (cleanup_old_records env s days)) u = store s u"
proof -
  from assms(1) have "table_schemas s = Map.empty" by (rule reachable_table_schemas)
  moreover from assms(2) have "log_only (store s) s" by (simp add: log_only_def)
  ultimately have "log_only (store s) (snd (cleanup_old_records env s days))"
    by (rule cleanup_log_only)
  with assms(3) show ?thesis by (simp add: log_only_def)
qed

lemma ensure_existing_table_always_raises:
  assumes "reachable env s" and "conn s = Open" and "\<not> fault env (length (trace s))"
    and "store s t = Some tb"
  shows "fst (ensure_table_for_dataframe env s t df)
           = Some (OperationalError (''table '' @ t @ '' already exists''))
         \<and> store (snd (ensure_table_for_dataframe env s t df)) = store s
         \<and> issued s (snd (ensure_table_for_dataframe env s t df)) = [Create_table t (column_defs df)]"
proof -
  from assms(1) have "table_schemas s = Map.empty" by (rule reachable_table_schemas)
  from ensure_existing_table_raises [OF this assms(2,3,4)] show ?thesis
    by (simp add: issued_def)
qed

text \<open>
  The frame that \<^verbatim>\<open>process_screaming_frog_csv\<close> passes on always has a column
  \<^verbatim>\<open>crawl_id\<close>, which the metadata columns repeat; so in a reachable state the
  \<^verbatim>\<open>CREATE TABLE\<close> is rejected whether the table exists or not.
\<close>

lemma tag_frame_has_crawl_id: "''crawl_id'' \<in> set (df_columns (tag_frame df0 cid f now))"
  by (simp add: tag_frame_def df_assign_def)

lemma normalize_crawl_id: "normalize_col ''crawl_id'' = ''crawl_id''"
  by code_simp

lemma first_word_crawl_id: "first_word (''crawl_id'' @ CHR '' '' # ty) = ''crawl_id''"
  by (simp add: first_word_def is_space_def)

lemma lower_crawl_id: "lower ''crawl_id'' = ''crawl_id''"
  by code_simp

lemma column_defs_duplicate:
  assumes "''crawl_id'' \<in> set (df_columns df)"
  shows "\<not> distinct (map (\<lambda>d. lower (first_word d)) (''id INTEGER PRIMARY KEY'' # column_defs df))"
proof -
  let ?g = "\<lambda>d. lower (first_word d)"
  let ?f = "\<lambda>col. normalize_col col @ '' '' @ get_column_type col (sample_get df col)"
  have "?f ''crawl_id'' = ''crawl_id'' @ CHR '' '' # get_column_type ''crawl_id'' (sample_get df ''crawl_id'')"
    by (simp add: normalize_crawl_id)
  then have "?g (?f ''crawl_id'') = ''crawl_id''"
    by (simp only: first_word_crawl_id lower_crawl_id)
  with assms have 1: "''crawl_id'' \<in> set (map ?g (map ?f (df_columns df)))"
    by (force simp: image_iff)
  have "?g ''crawl_id INTEGER'' = ''crawl_id''"
    using first_word_crawl_id [of "''INTEGER''"] by (simp add: lower_crawl_id)
  then have 2: "''crawl_id'' \<in> set (map ?g metadata_columns)"
    by (force simp: metadata_columns_def image_iff)
  from 1 2 have "\<not> distinct (map ?g (column_defs df))"
    by (auto simp: column_defs_def)
  then show ?thesis by simp
qed

lemma ingestion_always_raises:
  assumes "reachable env s" and "conn s = Open" and "\<not> fault env (length (trace s))"
    and "read_csv env f = Inr df0"
  shows "\<exists>m. fst (process_screaming_frog_csv env s f cid) = Inl (OperationalError m)"
proof -
  define df where "df = tag_frame df0 cid f (clock env (length (trace s)))"
  define t where "t = determine_table_name f"
  from assms(1) have e: "table_schemas s = Map.empty" by (rule reachable_table_schemas)
  have dup: "\<not> distinct (map (\<lambda>d. lower (first_word d)) (''id INTEGER PRIMARY KEY'' # column_defs df))"
    unfolding df_def by (rule column_defs_duplicate) (rule tag_frame_has_crawl_id)
  have "\<exists>m s1. ensure_table_for_dataframe env s t df = (Some (OperationalError m), s1)"
  proof (cases "store s t")
    case None
    with e assms(2,3) dup show ?thesis
      by (simp add: ensure_table_for_dataframe_def execute_def Let_def del: distinct.simps)
  next
    case (Some tb)
    with e assms(2,3) show ?thesis
      by (simp add: ensure_table_for_dataframe_def execute_def Let_def)
  qed
  with assms(4) show ?thesis
    by (auto simp: process_screaming_frog_csv_def Let_def df_def t_def)
qed

text \<open>
  In a reachable state a call of \<^verbatim>\<open>ensure_table_for_dataframe\<close> for a table that
  exists always raises and adds nothing, and \<^verbatim>\<open>process_screaming_frog_csv\<close> never
  returns a count and never changes the store, whatever the connection and the store do.
\<close>

lemma create_existing_fails:
  assumes "store s t = Some tb"
  shows "\<exists>e s1. execute env (Create_table t ds) s = (Some e, s1) \<and> store s1 = store s"
proof (cases "execute env (Create_table t ds) s")
  case (Pair r s1)
  then show ?thesis
  proof (cases rule: execute_cases)
    case closed
    with Pair show ?thesis by auto
  next
    case rejected
    with Pair show ?thesis by auto
  next
    case accepted
    with assms show ?thesis by simp
  qed
qed

lemma create_duplicate_fails:
  assumes "\<not> distinct (map (\<lambda>d. lower (first_word d)) (''id INTEGER PRIMARY KEY'' # ds))"
  shows "\<exists>e s1. execute env (Create_table t ds) s = (Some e, s1) \<and> store s1 = store s"
proof (cases "execute env (Create_table t ds) s")
  case (Pair r s1)
  then show ?thesis
  proof (cases rule: execute_cases)
    case closed
    with Pair show ?thesis by auto
  next
    case rejected
    with Pair show ?thesis by auto
  next
    case accepted
    from accepted(3) assms show ?thesis
      by (simp del: distinct.simps split: option.splits)
  qed
qed

lemma ensure_reachable_adds_nothing:
  assumes "reachable env s" and "store s t = Some tb"
  shows "fst (ensure_table_for_dataframe env s t df) \<noteq> None
         \<and> store (snd (ensure_table_for_dataframe env s t df)) = store s"
proof -
  from assms(1) have e: "table_schemas s = Map.empty" by (rule reachable_table_schemas)
  from create_existing_fails [OF assms(2), of env "column_defs df"]
  obtain x s1 where "execute env (Create_table t (column_defs df)) s = (Some x, s1)"
    "store s1 = store s" by blast
  with e show ?thesis
    by (simp add: ensure_table_for_dataframe_def)
qed

lemma ingestion_never_stores:
  assumes "reachable env s" and "read_csv env f = Inr df0"
  shows "(\<exists>e. fst (process_screaming_frog_csv env s f cid) = Inl e)
         \<and> store (snd (process_screaming_frog_csv env s f cid)) = store s"
proof -
  define df where "df = tag_frame df0 cid f (clock env (length (trace s)))"
  define t where "t = determine_table_name f"
  from assms(1) have e: "table_schemas s = Map.empty" by (rule reachable_table_schemas)
  have "\<not> distinct (map (\<lambda>d. lower (first_word d)) (''id INTEGER PRIMARY KEY'' # column_defs df))"
    unfolding df_def by (rule column_defs_duplicate) (rule tag_frame_has_crawl_id)
  from create_duplicate_fails [OF this, of env t s]
  obtain x s1 where "execute env (Create_table t (column_defs df)) s = (Some x, s1)"
    "store s1 = store s" by blast
  with e have "ensure_table_for_dataframe env s t df = (Some x, s1)"
    by (simp add: ensure_table_for_dataframe_def)
  with assms(2) \<open>store s1 = store s\<close> show ?thesis
    by (simp add: process_screaming_frog_csv_def Let_def df_def t_def)
qed

text \<open>
  \<^verbatim>\<open>optimize_database\<close> issues its \<^verbatim>\<open>VACUUM\<close> inside the transaction it has
  opened, so the run never completes: called with no transaction open, it leaves the store
  as it was.
\<close>

lemma begin_insert_fails:
  assumes "run env [Begin, Insert_maintenance_log a b c] s = (Some e, s1)" and "snapshot s = None"
  shows "store (snd (maintenance_handler env label None e s1)) = store s"
proof -
  obtain r0 s0 where b: "execute env Begin s = (r0, s0)" by (cases "execute env Begin s")
  from b show ?thesis
  proof (cases rule: execute_cases)
    case closed
    with b assms(1) have "s1 = s" by auto
    with closed(1) show ?thesis
      by (simp add: maintenance_handler_def rollback_def split: conn_state.splits)
  next
    case rejected
    with b assms(1) have "s1 = s\<lparr>trace := trace s @ [Begin]\<rparr>" by auto
    with rejected(1) assms(2) show ?thesis
      by (simp add: maintenance_handler_def rollback_def)
  next
    case accepted
    from accepted(3) assms(2) have s0: "s0 = s\<lparr>trace := trace s @ [Begin], snapshot := Some (store s)\<rparr>"
      by auto
    from b accepted(2) assms(1)
    have i: "execute env (Insert_maintenance_log a b c) s0 = (Some e, s1)"
      by (auto split: prod.splits option.splits)
    from i have "store s1 = store s \<and> snapshot s1 = Some (store s) \<and> conn s1 = Open"
    proof (cases rule: execute_cases)
      case closed
      with accepted(1) s0 show ?thesis by simp
    next
      case rejected
      with s0 show ?thesis by simp
    next
      case accepted
      then show ?thesis by simp
    qed
    then show ?thesis
      by (simp add: maintenance_handler_def rollback_def)
  qed
qed

lemma vacuum_in_txn_fails:
  assumes "in_txn d s"
  shows "\<exists>e s'. run env (Vacuum # sts) s = (Some e, s')"
proof (cases "execute env Vacuum s")
  case (Pair r s1)
  then show ?thesis
  proof (cases rule: execute_cases)
    case closed
    with assms show ?thesis by (simp add: in_txn_def)
  next
    case rejected
    with Pair show ?thesis by auto
  next
    case accepted
    with assms show ?thesis by (simp add: in_txn_def)
  qed
qed

lemma optimize_never_changes_store:
  assumes "snapshot s = None"
  shows "store (snd (optimize_database env s)) = store s"
proof -
  let ?first = "[Begin, Insert_maintenance_log ''optimize'' ''Regular database optimization''
                          ''in_progress'']"
  obtain r1 s1 where f: "run env ?first s = (r1, s1)" by (cases "run env ?first s")
  show ?thesis
  proof (cases r1)
    case (Some e)
    with f begin_insert_fails [of env _ _ _ s e s1, OF _ assms] show ?thesis
      by (simp add: optimize_database_def)
  next
    case None
    with f have ok: "run env ?first s = (None, s1)" by simp
    from begin_insert_ok [OF ok assms] have "in_txn (store s) s1" by blast
    from vacuum_in_txn_fails [OF this]
    obtain e s2 where "run env [Vacuum, Analyze, Pragma_optimize,
        Update_maintenance_log ''completed'' None (lastrowid s1), Commit] s1 = (Some e, s2)"
      by blast
    with assms ok show ?thesis
      by (rule optimize_failure_restores_store)
  qed
qed

section \<open>The code at concrete inputs\<close>

lemma column_defs_example:
  "column_defs example_frame = [''url TEXT'', ''crawl_id INTEGER'',
     ''processed_at TIMESTAMP DEFAULT CURRENT_TIMESTAMP'', ''source_file TEXT'']"
  by code_simp

lemma first_words:
  "first_word ''url TEXT'' = ''url''" "first_word ''title TEXT'' = ''title''"
  "first_word ''crawl_id INTEGER'' = ''crawl_id''"
  "first_word ''processed_at TIMESTAMP DEFAULT CURRENT_TIMESTAMP'' = ''processed_at''"
  "first_word ''source_file TEXT'' = ''source_file''"
  "first_word ''id INTEGER PRIMARY KEY'' = ''id''"
  by code_simp+

lemma constructed_eq:
  "constructed = \<lparr>table_schemas = Map.empty, conn = Open,
      store = [''crawl_metadata'' \<mapsto> \<lparr>tcolumns = crawl_metadata_columns, trows = []\<rparr>],
      snapshot = None, lastrowid = 0,
      trace = [Connect, Executescript [(''crawl_metadata'', crawl_metadata_columns)]]\<rparr>"
  by (simp add: constructed_def init_def setup_database_def connect_def new_dbm_def execute_def
      Let_def env0_def resolve_global_def module_globals_def create_if_absent_def)


lemmas eval_defs = execute_def Let_def env0_def create_if_absent_def has_column_def col_names_def
  begin_implicit_def rollback_def issued_def

lemma lowers:
  "lower ''id'' = ''id''" "lower ''url'' = ''url''" "lower ''crawl_id'' = ''crawl_id''"
  "lower ''processed_at'' = ''processed_at''" "lower ''source_file'' = ''source_file''"
  "lower ''title'' = ''title''"
  by code_simp+

lemma constructed_with_sf_a_eq:
  "constructed_with_sf_a = \<lparr>table_schemas = Map.empty, conn = Open,
      store = [''crawl_metadata'' \<mapsto> \<lparr>tcolumns = crawl_metadata_columns, trows = []\<rparr>,
               ''sf_a'' \<mapsto> \<lparr>tcolumns = ''id INTEGER PRIMARY KEY'' # column_defs example_frame,
                              trows = []\<rparr>],
      snapshot = None, lastrowid = 0,
      trace = [Connect, Executescript [(''crawl_metadata'', crawl_metadata_columns)],
               Create_table ''sf_a'' (column_defs example_frame), Commit]\<rparr>"
  by (simp add: constructed_with_sf_a_def constructed_eq ensure_table_for_dataframe_def eval_defs
      column_defs_example first_words lowers)

text \<open>
  C1 does not hold of the code. A first call of \<^verbatim>\<open>ensure_table_for_dataframe\<close> on the
  constructed state creates the table. The second call with the same frame finds the name
  missing from \<^verbatim>\<open>table_schemas\<close>, issues \<^verbatim>\<open>CREATE TABLE\<close> again without reading
  the live column set, and raises because the table exists.
\<close>

theorem ensure_twice_raises:
  "fst (ensure_table_for_dataframe env0 constructed ''sf_a'' example_frame) = None
   \<and> map_option tcolumns (store constructed_with_sf_a ''sf_a'')
       = Some (''id INTEGER PRIMARY KEY'' # column_defs example_frame)
   \<and> fst (ensure_table_for_dataframe env0 constructed_with_sf_a ''sf_a'' example_frame)
       = Some (OperationalError ''table sf_a already exists'')
   \<and> issued constructed_with_sf_a
         (snd (ensure_table_for_dataframe env0 constructed_with_sf_a ''sf_a'' example_frame))
       = [Create_table ''sf_a'' (column_defs example_frame)]"
proof -
  have 1: "fst (ensure_table_for_dataframe env0 constructed ''sf_a'' example_frame) = None"
    by (simp add: constructed_eq ensure_table_for_dataframe_def eval_defs
      column_defs_example first_words lowers)
  have 2: "ensure_table_for_dataframe env0 constructed_with_sf_a ''sf_a'' example_frame
      = (Some (OperationalError ''table sf_a already exists''),
         constructed_with_sf_a\<lparr>trace := trace constructed_with_sf_a
            @ [Create_table ''sf_a'' (column_defs example_frame)]\<rparr>)"
    by (simp add: constructed_with_sf_a_eq ensure_table_for_dataframe_def eval_defs)
  from 1 2 show ?thesis
    by (simp add: issued_def) (simp add: constructed_with_sf_a_eq)
qed

lemma log_first_words:
  "map first_word maintenance_log_columns =
     [''id'', ''operation'', ''details'', ''started_at'', ''completed_at'', ''status'', ''error_message'']"
  by code_simp

lemma log_lowers:
  "map lower [''id'', ''operation'', ''details'', ''started_at'', ''completed_at'', ''status'',
              ''error_message''] =
     [''id'', ''operation'', ''details'', ''started_at'', ''completed_at'', ''status'', ''error_message'']"
  "lower ''operation'' = ''operation''" "lower ''details'' = ''details''"
  "lower ''started_at'' = ''started_at''" "lower ''completed_at'' = ''completed_at''"
  "lower ''status'' = ''status''" "lower ''error_message'' = ''error_message''"
  "lower ''crawl_date'' = ''crawl_date''"
  by code_simp+

lemma retention_db_lookup:
  "retention_db ''crawl_metadata'' = Some \<lparr>tcolumns = crawl_metadata_columns,
       trows = [crawl_row 1 10, crawl_row 2 40, crawl_row 3 400]\<rparr>"
  "retention_db ''maintenance_log'' = Some \<lparr>tcolumns = maintenance_log_columns, trows = []\<rparr>"
  by (simp_all add: retention_db_def)

lemma retention_state_eq:
  "retention_state = \<lparr>table_schemas = Map.empty, conn = Open, store = retention_db,
      snapshot = None, lastrowid = 0,
      trace = [Connect, Executescript [(''crawl_metadata'', crawl_metadata_columns)]]\<rparr>"
  by (simp add: retention_state_def init_def setup_database_def connect_def new_dbm_def execute_def
      Let_def env0_def env_today_def resolve_global_def module_globals_def create_if_absent_def
      retention_db_lookup)

lemma retention_cutoff:
  "map (older_than (1000 * usec_per_day - 30 * usec_per_day))
       [crawl_row 1 10, crawl_row 2 40, crawl_row 3 400] = [False, True, True]"
  by (simp add: older_than_def crawl_row_def usec_per_day_def)

lemmas cleanup_eval = cleanup_old_records_def optimize_database_def maintenance_handler_def
  retention_state_eq retention_db_lookup execute_def Let_def env0_def env_today_def
  has_column_def col_names_def log_first_words log_lowers begin_implicit_def rollback_def
  next_rowid_def row_id_def tables_to_clean_def log_update_def

text \<open>
  C2 does not hold of the code. With crawl records dated 10, 40 and 400 days ago, of which
  two are older than the cutoff, \<^verbatim>\<open>cleanup_old_records(30)\<close> returns normally, logs
  the run as completed, issues no \<^verbatim>\<open>DELETE\<close> and leaves all three records.
\<close>

theorem cleanup_deletes_nothing:
  "fst (cleanup_old_records env_today retention_state 30) = None
   \<and> map_option trows (store (snd (cleanup_old_records env_today retention_state 30)) ''crawl_metadata'')
       = Some [crawl_row 1 10, crawl_row 2 40, crawl_row 3 400]
   \<and> map (older_than (clock env_today 4 - 30 * usec_per_day))
         [crawl_row 1 10, crawl_row 2 40, crawl_row 3 400] = [False, True, True]
   \<and> issued retention_state (snd (cleanup_old_records env_today retention_state 30))
       = [Begin,
          Insert_maintenance_log ''cleanup'' (''Removing records older than '' @ str_int 30 @ '' days'')
            ''in_progress'',
          Update_maintenance_log ''completed'' None 1, Commit]"
proof -
  have 1: "fst (cleanup_old_records env_today retention_state 30) = None"
    by (simp add: cleanup_eval)
  have 2: "map_option trows
             (store (snd (cleanup_old_records env_today retention_state 30)) ''crawl_metadata'')
           = Some [crawl_row 1 10, crawl_row 2 40, crawl_row 3 400]"
    by (simp add: cleanup_eval)
  have 3: "map (older_than (clock env_today 4 - 30 * usec_per_day))
         [crawl_row 1 10, crawl_row 2 40, crawl_row 3 400] = [False, True, True]"
    using retention_cutoff by (simp add: env_today_def env0_def)
  have 4: "issued retention_state (snd (cleanup_old_records env_today retention_state 30))
       = [Begin,
          Insert_maintenance_log ''cleanup'' (''Removing records older than '' @ str_int 30 @ '' days'')
            ''in_progress'',
          Update_maintenance_log ''completed'' None 1, Commit]"
    by (simp add: cleanup_eval issued_def)
  from 1 2 3 4 show ?thesis by blast
qed

lemma log_state_eq:
  "log_state = \<lparr>table_schemas = Map.empty, conn = Open,
      store = [''maintenance_log'' \<mapsto> \<lparr>tcolumns = maintenance_log_columns, trows = []\<rparr>,
               ''crawl_metadata'' \<mapsto> \<lparr>tcolumns = crawl_metadata_columns, trows = []\<rparr>],
      snapshot = None, lastrowid = 0,
      trace = [Connect, Executescript [(''crawl_metadata'', crawl_metadata_columns)]]\<rparr>"
  by (simp add: log_state_def init_def setup_database_def connect_def new_dbm_def execute_def
      Let_def env0_def env_vacuum_fails_def resolve_global_def module_globals_def
      create_if_absent_def log_db_def)

lemmas optimize_eval = optimize_database_def maintenance_handler_def
  log_state_eq execute_def Let_def env0_def env_vacuum_fails_def
  has_column_def col_names_def log_first_words log_lowers begin_implicit_def rollback_def
  next_rowid_def row_id_def log_update_def

text \<open>
  C5 does not hold of the code. When the \<^verbatim>\<open>VACUUM\<close> of \<^verbatim>\<open>optimize_database\<close> is
  rejected, the rollback removes the log entry inserted in the same transaction; the
  UPDATE that should mark it failed finds no row, and the maintenance log stays empty.
\<close>

theorem optimize_failure_loses_log_entry:
  "fst (optimize_database env_vacuum_fails log_state) = None
   \<and> map_option trows (store (snd (optimize_database env_vacuum_fails log_state)) ''maintenance_log'')
       = Some []
   \<and> issued log_state (snd (optimize_database env_vacuum_fails log_state))
       = [Begin,
          Insert_maintenance_log ''optimize'' ''Regular database optimization'' ''in_progress'',
          Vacuum,
          Update_maintenance_log ''failed''
            (Some ''Database optimization failed: disk I/O error'') 1,
          Commit]"
proof -
  have 1: "fst (optimize_database env_vacuum_fails log_state) = None"
    by (simp add: optimize_eval)
  have 2: "map_option trows
             (store (snd (optimize_database env_vacuum_fails log_state)) ''maintenance_log'') = Some []"
    by (simp add: optimize_eval)
  have 3: "issued log_state (snd (optimize_database env_vacuum_fails log_state))
       = [Begin,
          Insert_maintenance_log ''optimize'' ''Regular database optimization'' ''in_progress'',
          Vacuum,
          Update_maintenance_log ''failed''
            (Some ''Database optimization failed: disk I/O error'') 1,
          Commit]"
    by (simp add: optimize_eval issued_def)
  from 1 2 3 show ?thesis by blast
qed

text \<open>
  The same run with a store that accepts every statement it can: the \<^verbatim>\<open>VACUUM\<close> is
  refused because the transaction is open, and the run ends the same way.
\<close>

lemma optimize_without_fault_fails:
  "issued log_state (snd (optimize_database env0 log_state))
     = [Begin,
        Insert_maintenance_log ''optimize'' ''Regular database optimization'' ''in_progress'',
        Vacuum,
        Update_maintenance_log ''failed''
          (Some ''Database optimization failed: cannot VACUUM from within a transaction'') 1,
        Commit]"
  by code_simp

lemma column_defs_wider:
  "column_defs wider_frame = [''url TEXT'', ''title TEXT'', ''crawl_id INTEGER'',
     ''processed_at TIMESTAMP DEFAULT CURRENT_TIMESTAMP'', ''source_file TEXT'']"
  by code_simp

text \<open>
  C7 does not hold of the code. After a first call has created the table, a call whose
  columns are a superset of the first call's issues \<^verbatim>\<open>CREATE TABLE\<close> again and
  raises because the table exists. The existing columns stay as they were, but the new
  column is not added.
\<close>

theorem superset_call_raises:
  "map_option tcolumns (store constructed_with_sf_a ''sf_a'')
       = Some (''id INTEGER PRIMARY KEY'' # column_defs example_frame)
   \<and> set (column_defs example_frame) \<subseteq> set (column_defs wider_frame)
   \<and> ''title TEXT'' \<in> set (column_defs wider_frame) - set (column_defs example_frame)
   \<and> fst (ensure_table_for_dataframe env0 constructed_with_sf_a ''sf_a'' wider_frame)
       = Some (OperationalError ''table sf_a already exists'')
   \<and> store (snd (ensure_table_for_dataframe env0 constructed_with_sf_a ''sf_a'' wider_frame))
       = store constructed_with_sf_a
   \<and> issued constructed_with_sf_a
         (snd (ensure_table_for_dataframe env0 constructed_with_sf_a ''sf_a'' wider_frame))
       = [Create_table ''sf_a'' (column_defs wider_frame)]"
proof -
  have 1: "map_option tcolumns (store constructed_with_sf_a ''sf_a'')
       = Some (''id INTEGER PRIMARY KEY'' # column_defs example_frame)"
    by (simp add: constructed_with_sf_a_eq)
  have 2: "set (column_defs example_frame) \<subseteq> set (column_defs wider_frame)"
    by (simp add: column_defs_example column_defs_wider)
  have 3: "''title TEXT'' \<in> set (column_defs wider_frame) - set (column_defs example_frame)"
    by (simp add: column_defs_example column_defs_wider)
  have 4: "ensure_table_for_dataframe env0 constructed_with_sf_a ''sf_a'' wider_frame
      = (Some (OperationalError ''table sf_a already exists''),
         constructed_with_sf_a\<lparr>trace := trace constructed_with_sf_a
            @ [Create_table ''sf_a'' (column_defs wider_frame)]\<rparr>)"
    by (simp add: constructed_with_sf_a_eq ensure_table_for_dataframe_def eval_defs)
  from 1 2 3 4 show ?thesis
    by (simp add: issued_def)
qed

text \<open>
  C4 does not hold of the code. Ingesting a file with a header line and no data row raises:
  the frame passed on already has the columns \<^verbatim>\<open>crawl_id\<close>, \<^verbatim>\<open>source_file\<close>
  and \<^verbatim>\<open>processed_at\<close>, the metadata columns are appended to the definitions once
  more, and the \<^verbatim>\<open>CREATE TABLE\<close> is rejected for the duplicate column name.
\<close>

theorem empty_batch_raises:
  "read_csv env_header_only ''a.csv'' = Inr header_only_frame
   \<and> df_rows header_only_frame = []
   \<and> fst (process_screaming_frog_csv env_header_only constructed ''a.csv'' 1)
       = Inl (OperationalError ''duplicate column name'')
   \<and> issued constructed (snd (process_screaming_frog_csv env_header_only constructed ''a.csv'' 1))
       = [Create_table ''sf_a''
            [''url TEXT'', ''crawl_id TEXT'', ''source_file TEXT'', ''processed_at TEXT'',
             ''crawl_id INTEGER'', ''processed_at TIMESTAMP DEFAULT CURRENT_TIMESTAMP'',
             ''source_file TEXT'']]"
  by (intro conjI; code_simp)

end
